theory Spec2Isabelle
  imports Main "HOL-Library.Multiset" "HOL-Library.Sublist"
begin

section \<open>The HTML node tree and pointers into it\<close>

text \<open>
  The table extractor walks the tree that \<^verbatim>\<open>html.Parse\<close> returns. A node of that tree
  has a type, an atom (the code of a known tag name, zero for every other name), its
  data (the tag name of an element, the text of a text node) and its children in
  document order.
\<close>

datatype NodeType =
  ErrorNode | TextNode | DocumentNode | ElementNode | CommentNode | DoctypeNode

datatype atom = Table | Thead | Tbody | Tfoot | Tr | Th | Td | OtherAtom

datatype node = Node (Type: NodeType) (DataAtom: atom) (Data: string) (children: "node list")

text \<open>
  The source holds \<^verbatim>\<open>*html.Node\<close> pointers and follows their \<^verbatim>\<open>FirstChild\<close>,
  \<^verbatim>\<open>NextSibling\<close> and \<^verbatim>\<open>Parent\<close> fields. A pointer is modelled by what can be
  reached from it: the node it points to (with its subtree), the chain of its following
  siblings, and the pointer to its parent (\<open>None\<close> is \<^verbatim>\<open>nil\<close>). Two pointers into one
  tree are equal as values exactly when they point to the same node (the children of one
  parent differ in the length of the chain of following siblings, the children of
  different parents in the parent pointer), so the source's pointer comparisons are
  equalities of these values.
\<close>

datatype ptr = Ptr (node: node) (siblings: "node list") (Parent: "ptr option")

definition FirstChild :: "ptr \<Rightarrow> ptr option" where
  "FirstChild n = (case children (node n) of [] \<Rightarrow> None | c # cs \<Rightarrow> Some (Ptr c cs (Some n)))"

definition NextSibling :: "ptr \<Rightarrow> ptr option" where
  "NextSibling n = (case siblings n of [] \<Rightarrow> None | m # ms \<Rightarrow> Some (Ptr m ms (Parent n)))"

text \<open>A panic of the Go runtime (here: following a field of a \<^verbatim>\<open>nil\<close> pointer).\<close>

datatype 'a exec = Panic | Return 'a

type_synonym table = "string list list"

section \<open>Measures of the tree walks\<close>

fun count_nodes :: "node \<Rightarrow> nat" where
  "count_nodes (Node ty a d cs) = Suc (sum_list (map count_nodes cs))"

fun following :: "ptr \<Rightarrow> nat" where
  "following (Ptr n sibs None) = sum_list (map count_nodes sibs)"
| "following (Ptr n sibs (Some q)) = sum_list (map count_nodes sibs) + following q"

definition remaining :: "ptr \<Rightarrow> nat" where
  "remaining n = count_nodes (node n) + following n"

section \<open>Library functions used by the extractor\<close>

text \<open>
  \<^verbatim>\<open>strings.TrimSpace\<close> removes the leading and the trailing white space of a string, as
  \<^verbatim>\<open>unicode.IsSpace\<close> defines it. Go strings are byte strings in UTF-8, so the white
  space runes are listed by their encodings: tab, line feed, vertical tab, form feed,
  carriage return, space, U+0085, U+00A0, U+1680, U+2000 to U+200A, U+2028, U+2029,
  U+202F, U+205F and U+3000.
\<close>

definition space_runes :: "string list" where
  "space_runes =
     [[CHR 0x09], [CHR 0x0A], [CHR 0x0B], [CHR 0x0C], [CHR 0x0D], [CHR 0x20],
      [CHR 0xC2, CHR 0x85], [CHR 0xC2, CHR 0xA0],
      [CHR 0xE1, CHR 0x9A, CHR 0x80],
      [CHR 0xE2, CHR 0x80, CHR 0x80], [CHR 0xE2, CHR 0x80, CHR 0x81],
      [CHR 0xE2, CHR 0x80, CHR 0x82], [CHR 0xE2, CHR 0x80, CHR 0x83],
      [CHR 0xE2, CHR 0x80, CHR 0x84], [CHR 0xE2, CHR 0x80, CHR 0x85],
      [CHR 0xE2, CHR 0x80, CHR 0x86], [CHR 0xE2, CHR 0x80, CHR 0x87],
      [CHR 0xE2, CHR 0x80, CHR 0x88], [CHR 0xE2, CHR 0x80, CHR 0x89],
      [CHR 0xE2, CHR 0x80, CHR 0x8A],
      [CHR 0xE2, CHR 0x80, CHR 0xA8], [CHR 0xE2, CHR 0x80, CHR 0xA9],
      [CHR 0xE2, CHR 0x80, CHR 0xAF],
      [CHR 0xE2, CHR 0x81, CHR 0x9F],
      [CHR 0xE3, CHR 0x80, CHR 0x80]]"

definition leading_space :: "string list \<Rightarrow> string \<Rightarrow> nat" where
  \<comment> \<open>the number of bytes of the white space rune that \<open>s\<close> starts with, 0 if there is none\<close>
  "leading_space runes s = (case find (\<lambda>e. prefix e s) runes of None \<Rightarrow> 0 | Some e \<Rightarrow> length e)"

function TrimLeft :: "string list \<Rightarrow> string \<Rightarrow> string" where
  "TrimLeft runes s =
     (if 0 < leading_space runes s \<and> leading_space runes s \<le> length s
      then TrimLeft runes (drop (leading_space runes s) s) else s)"
  by pat_completeness auto
termination
  by (relation "measure (\<lambda>(runes, s). length s)") auto

declare TrimLeft.simps [simp del]

definition TrimSpace :: "string \<Rightarrow> string" where
  "TrimSpace s = rev (TrimLeft (map rev space_runes) (rev (TrimLeft space_runes s)))"

section \<open>The table extractor\<close>

text \<open>
  Errors that the Go code passes around as \<^verbatim>\<open>error\<close> values: the two errors of
  \<^verbatim>\<open>strconv\<close> (with the text that was rejected) and the errors of the collaborators
  that are not part of the repository (the HTTP client, the HTML parser, the float parser).
\<close>

datatype error = ErrSyntax string | ErrRange string | ExternalError string

lemma count_nodes_pos: "0 < count_nodes n"
  by (cases n) simp

lemma remaining_FirstChild: "FirstChild n = Some c \<Longrightarrow> remaining c < remaining n"
  by (cases n; cases "node n"; cases "Parent n")
     (auto simp: FirstChild_def remaining_def split: list.splits)

lemma following_NextSibling: "NextSibling n = Some m \<Longrightarrow> remaining m = following n"
  by (cases n; cases "Parent n") (auto simp: NextSibling_def remaining_def split: list.splits)

lemma remaining_NextSibling: "NextSibling n = Some m \<Longrightarrow> remaining m < remaining n"
  using following_NextSibling [of n m] count_nodes_pos [of "node n"]
  by (simp add: remaining_def)

lemma following_last_child:
  "NextSibling n = None \<Longrightarrow> Parent n = Some q \<Longrightarrow> following n = following q"
  by (cases n) (auto simp: NextSibling_def split: list.splits)

lemma remaining_Parent_NextSibling:
  "NextSibling n = None \<Longrightarrow> Parent n = Some q \<Longrightarrow> NextSibling q = Some m \<Longrightarrow>
   remaining m < remaining n"
  using following_last_child [of n q] following_NextSibling [of q m]
    count_nodes_pos [of "node n"]
  by (simp add: remaining_def)

lemma siblings_NextSibling:
  "NextSibling n = Some m \<Longrightarrow> length (siblings m) < length (siblings n)"
  by (auto simp: NextSibling_def split: list.splits)

text \<open>
  The innermost loop of \<^verbatim>\<open>parseTable\<close> collects the text of one cell. The second
  \<^verbatim>\<open>if\<close> chain of its body computes the next value of \<^verbatim>\<open>contentNode\<close>
  (\<open>None\<close> is \<^verbatim>\<open>nil\<close>, which ends the loop).
\<close>

definition content_advance :: "ptr \<Rightarrow> ptr \<Rightarrow> ptr option exec" where
  "content_advance cellNode contentNode =
     (if NextSibling contentNode \<noteq> None then Return (NextSibling contentNode)
      else if Parent contentNode \<noteq> Some cellNode then
        (case Parent contentNode of
           None \<Rightarrow> Panic
         | Some q \<Rightarrow> Return (NextSibling q))
      else Return None)"

lemma content_advance_remaining:
  "content_advance cellNode n = Return (Some m) \<Longrightarrow> remaining m < remaining n"
  by (auto simp: content_advance_def remaining_NextSibling remaining_Parent_NextSibling
      split: if_splits option.splits)

function content_loop :: "ptr \<Rightarrow> ptr option \<Rightarrow> string \<Rightarrow> string exec" where
  "content_loop cellNode None contentBuffer = Return contentBuffer"
| "content_loop cellNode (Some contentNode) contentBuffer =
     (if Type (node contentNode) = TextNode then
        (case content_advance cellNode contentNode of
           Panic \<Rightarrow> Panic
         | Return next \<Rightarrow>
             content_loop cellNode next (contentBuffer @ Data (node contentNode)))
      else
        (case FirstChild contentNode of
           Some c \<Rightarrow> content_loop cellNode (Some c) contentBuffer
         | None \<Rightarrow>
            (case content_advance cellNode contentNode of
               Panic \<Rightarrow> Panic
             | Return next \<Rightarrow> content_loop cellNode next contentBuffer)))"
  by pat_completeness auto
termination
  by (relation "measure (\<lambda>(cellNode, contentNode, contentBuffer).
        case contentNode of None \<Rightarrow> 0 | Some n \<Rightarrow> Suc (remaining n))")
     (auto simp: content_advance_remaining remaining_FirstChild split: option.splits)

declare content_loop.simps(2) [simp del]

text \<open>The three outer loops of \<^verbatim>\<open>parseTable\<close> each run along a chain of siblings.\<close>

function cell_loop :: "ptr option \<Rightarrow> string list \<Rightarrow> string list exec" where
  "cell_loop None row = Return row"
| "cell_loop (Some cellNode) row =
     (if Type (node cellNode) = ElementNode
         \<and> (DataAtom (node cellNode) = Th \<or> DataAtom (node cellNode) = Td) then
        (case content_loop cellNode (FirstChild cellNode) [] of
           Panic \<Rightarrow> Panic
         | Return contentBuffer \<Rightarrow>
             cell_loop (NextSibling cellNode) (row @ [TrimSpace contentBuffer]))
      else cell_loop (NextSibling cellNode) row)"
  by pat_completeness auto
termination
  by (relation "measure (\<lambda>(cellNode, row).
        case cellNode of None \<Rightarrow> 0 | Some n \<Rightarrow> Suc (length (siblings n)))")
     (auto simp: siblings_NextSibling split: option.splits)

function row_loop :: "ptr option \<Rightarrow> table \<Rightarrow> table exec" where
  "row_loop None table = Return table"
| "row_loop (Some rowNode) table =
     (if Type (node rowNode) = ElementNode \<and> DataAtom (node rowNode) = Tr then
        (case cell_loop (FirstChild rowNode) [] of
           Panic \<Rightarrow> Panic
         | Return row \<Rightarrow> row_loop (NextSibling rowNode) (table @ [row]))
      else row_loop (NextSibling rowNode) table)"
  by pat_completeness auto
termination
  by (relation "measure (\<lambda>(rowNode, table).
        case rowNode of None \<Rightarrow> 0 | Some n \<Rightarrow> Suc (length (siblings n)))")
     (auto simp: siblings_NextSibling split: option.splits)

function body_loop :: "ptr option \<Rightarrow> table \<Rightarrow> table exec" where
  "body_loop None table = Return table"
| "body_loop (Some bodyNode) table =
     (if Type (node bodyNode) = ElementNode
         \<and> (DataAtom (node bodyNode) = Thead \<or> DataAtom (node bodyNode) = Tbody) then
        (case row_loop (FirstChild bodyNode) table of
           Panic \<Rightarrow> Panic
         | Return table' \<Rightarrow> body_loop (NextSibling bodyNode) table')
      else body_loop (NextSibling bodyNode) table)"
  by pat_completeness auto
termination
  by (relation "measure (\<lambda>(bodyNode, table).
        case bodyNode of None \<Rightarrow> 0 | Some n \<Rightarrow> Suc (length (siblings n)))")
     (auto simp: siblings_NextSibling split: option.splits)

declare cell_loop.simps(2) [simp del] row_loop.simps(2) [simp del] body_loop.simps(2) [simp del]

definition parseTable :: "ptr \<Rightarrow> table exec" where
  "parseTable tableNode = body_loop (FirstChild tableNode) []"

text \<open>
  The loop of \<^verbatim>\<open>parseTables\<close>. The second \<^verbatim>\<open>if\<close> chain of its body computes the
  next node, or \<open>None\<close> where the source leaves the loop with \<^verbatim>\<open>break\<close>. For a
  \<^verbatim>\<open>nil\<close> parent the comparison \<^verbatim>\<open>n.Parent != doc\<close> holds and the source then reads
  \<^verbatim>\<open>n.Parent.NextSibling\<close>, which panics.
\<close>

definition is_table :: "ptr \<Rightarrow> bool" where
  "is_table n \<longleftrightarrow> Type (node n) = ElementNode \<and> DataAtom (node n) = Table"

definition tables_advance :: "ptr \<Rightarrow> ptr \<Rightarrow> ptr option exec" where
  "tables_advance doc n =
     (if NextSibling n \<noteq> None then Return (NextSibling n)
      else (case Parent n of
          None \<Rightarrow> Panic
        | Some q \<Rightarrow>
            if q \<noteq> doc \<and> NextSibling q \<noteq> None then Return (NextSibling q)
            else Return None))"

lemma tables_advance_remaining:
  "tables_advance doc n = Return (Some m) \<Longrightarrow> remaining m < remaining n"
  by (auto simp: tables_advance_def remaining_NextSibling remaining_Parent_NextSibling
      split: if_splits option.splits)

function parseTables_loop :: "ptr \<Rightarrow> ptr \<Rightarrow> table list \<Rightarrow> table list exec" where
  "parseTables_loop doc n tables =
     (if is_table n then
        (case parseTable n of
           Panic \<Rightarrow> Panic
         | Return t \<Rightarrow>
            (case tables_advance doc n of
               Panic \<Rightarrow> Panic
             | Return None \<Rightarrow> Return (tables @ [t])
             | Return (Some n') \<Rightarrow> parseTables_loop doc n' (tables @ [t])))
      else
        (case FirstChild n of
           Some c \<Rightarrow> parseTables_loop doc c tables
         | None \<Rightarrow>
            (case tables_advance doc n of
               Panic \<Rightarrow> Panic
             | Return None \<Rightarrow> Return tables
             | Return (Some n') \<Rightarrow> parseTables_loop doc n' tables)))"
  by pat_completeness auto
termination
  by (relation "measure (\<lambda>(doc, n, tables). remaining n)")
     (auto simp: tables_advance_remaining remaining_FirstChild)

declare parseTables_loop.simps [simp del]

text \<open>
  \<^verbatim>\<open>parseTables\<close> first calls \<^verbatim>\<open>html.Parse\<close>, which is not part of the repository: the
  model takes what that call returned, an error or the document node.
\<close>

definition parseTables :: "error + node \<Rightarrow> (error + table list) exec" where
  "parseTables parsed =
     (case parsed of
        Inl err \<Rightarrow> Return (Inl err)
      | Inr d \<Rightarrow>
         (let doc = Ptr d [] None in
          case parseTables_loop doc doc [] of
            Panic \<Rightarrow> Panic
          | Return tables \<Rightarrow> Return (Inr tables)))"

section \<open>Library functions used by the decoder\<close>

text \<open>
  Go's \<^verbatim>\<open>int64\<close> is modelled by \<open>int\<close>, with the wrap-around of the one
  multiplication of the source written out.
\<close>

definition wrap64 :: "int \<Rightarrow> int" where
  "wrap64 x = (x + 2 ^ 63) mod 2 ^ 64 - 2 ^ 63"

definition int64_mul :: "int \<Rightarrow> int \<Rightarrow> int" where
  "int64_mul a b = wrap64 (a * b)"

text \<open>
  \<^verbatim>\<open>strconv.ParseInt(s, 10, 64)\<close> returns a value and an error: an optional sign, then
  one or more decimal digits; a syntax error gives the value 0, a value out of range gives
  the nearest bound and a range error.
\<close>

definition is_digit :: "char \<Rightarrow> bool" where
  "is_digit c \<longleftrightarrow> 48 \<le> (of_char c :: int) \<and> (of_char c :: int) \<le> 57"

definition digits_value :: "string \<Rightarrow> int" where
  "digits_value ds = foldl (\<lambda>n c. 10 * n + (of_char c - 48)) 0 ds"

definition ParseInt :: "string \<Rightarrow> int \<times> error option" where
  "ParseInt s =
     (if s = [] then (0, Some (ErrSyntax s))
      else
        let neg = (hd s = CHR ''-'');
            ds = (if hd s = CHR ''+'' \<or> hd s = CHR ''-'' then tl s else s)
        in
          if ds = [] \<or> \<not> list_all is_digit ds then (0, Some (ErrSyntax s))
          else
            let un = digits_value ds in
              if \<not> neg \<and> un \<ge> 2 ^ 63 then (2 ^ 63 - 1, Some (ErrRange s))
              else if neg \<and> un > 2 ^ 63 then (- (2 ^ 63), Some (ErrRange s))
              else (if neg then - un else un, None))"

text \<open>\<^verbatim>\<open>strings.Split(s, sep)\<close> for a separator of one byte.\<close>

fun Split :: "string \<Rightarrow> char \<Rightarrow> string list" where
  "Split [] sep = [[]]"
| "Split (c # s) sep =
     (if c = sep then [] # Split s sep
      else (case Split s sep of
          [] \<Rightarrow> [[c]]
        | p # ps \<Rightarrow> (c # p) # ps))"

text \<open>
  \<^verbatim>\<open>fmt.Sprintf("%02d", channel)\<close>: the decimal digits, padded with zeros on the left
  to two characters; a minus sign counts as one of the two.
\<close>

function decimal :: "int \<Rightarrow> string" where
  "decimal n =
     (if n < 10 then [char_of (48 + n)] else decimal (n div 10) @ [char_of (48 + n mod 10)])"
  by pat_completeness auto
termination
  by (relation "measure nat") auto

declare decimal.simps [simp del]

definition Sprintf_02d :: "int \<Rightarrow> string" where
  "Sprintf_02d i =
     (if i < 0 then CHR ''-'' # decimal (- i)
      else if i < 10 then CHR ''0'' # decimal i
      else decimal i)"

text \<open>
  A \<^verbatim>\<open>float64\<close> is kept as the expression that made it: the conversion of an
  \<^verbatim>\<open>int64\<close> (the constants 0 and 1 of the source are such), or what
  \<^verbatim>\<open>strconv.ParseFloat\<close> returned for a text.
\<close>

datatype float64 = Float64_of_int int | Float64_of_text string

section \<open>Metrics\<close>

record Desc =
  fqName :: string
  helpText :: string
  variableLabels :: "string list"

datatype ValueType = CounterValue | GaugeValue | UntypedValue

text \<open>
  What is sent on the channel of \<^verbatim>\<open>Collect\<close>: a constant metric, or the metrics of
  one of the exporter's own collectors (a counter, or a vector with one metric for each
  of its children), named by the collector.
\<close>

datatype Metric =
  ConstMetric Desc ValueType float64 "string list"
| CollectedFrom string

definition namespace :: string where
  "namespace = ''tc4400''"

definition BuildFQName :: "string \<Rightarrow> string \<Rightarrow> string \<Rightarrow> string" where
  "BuildFQName ns subsystem name =
     (if name = [] then []
      else if ns \<noteq> [] \<and> subsystem \<noteq> [] then ns @ ''_'' @ subsystem @ ''_'' @ name
      else if ns \<noteq> [] then ns @ ''_'' @ name
      else if subsystem \<noteq> [] then subsystem @ ''_'' @ name
      else name)"

definition NewDesc :: "string \<Rightarrow> string \<Rightarrow> string list \<Rightarrow> Desc" where
  "NewDesc fq h labels = \<lparr>fqName = fq, helpText = h, variableLabels = labels\<rparr>"

text \<open>
  \<^verbatim>\<open>prometheus.MustNewConstMetric\<close> panics when the number of label values is not the
  number of variable labels of the descriptor.
\<close>

definition MustNewConstMetric :: "Desc \<Rightarrow> ValueType \<Rightarrow> float64 \<Rightarrow> string list \<Rightarrow> Metric exec" where
  "MustNewConstMetric d vt v labelValues =
     (if length labelValues \<noteq> length (variableLabels d) then Panic
      else Return (ConstMetric d vt v labelValues))"

definition channelLabelNames :: "string list" where
  "channelLabelNames = [''channel'']"

definition newChannelMetric :: "string \<Rightarrow> string \<Rightarrow> string \<Rightarrow> string list \<Rightarrow> Desc" where
  "newChannelMetric subsystemName metricName docString extraLabels =
     NewDesc (BuildFQName namespace subsystemName metricName) docString
       (channelLabelNames @ extraLabels)"

text \<open>
  A \<^verbatim>\<open>metrics\<close> value is a Go map from column index to descriptor. It is written as
  the list of its entries; the order in which a \<^verbatim>\<open>range\<close> statement visits them is
  chosen at run time (see \<open>range_map\<close>).
\<close>

type_synonym metrics = "(int \<times> Desc) list"

definition targetUpMetric :: Desc where
  "targetUpMetric =
     NewDesc (BuildFQName namespace [] ''up'') ''Was the last scrape of TC4400 succesful.'' []"

definition networkMetrics :: metrics where
  "networkMetrics =
     [(1, NewDesc (BuildFQName namespace ''network'' ''receive_bytes_total'') [] [''interface'']),
      (2, NewDesc (BuildFQName namespace ''network'' ''receive_packets_total'') [] [''interface'']),
      (3, NewDesc (BuildFQName namespace ''network'' ''receive_errs_total'') [] [''interface'']),
      (4, NewDesc (BuildFQName namespace ''network'' ''receive_drop_total'') [] [''interface'']),
      (5, NewDesc (BuildFQName namespace ''network'' ''transmit_bytes_total'') [] [''interface'']),
      (6, NewDesc (BuildFQName namespace ''network'' ''transmit_packets_total'') [] [''interface'']),
      (7, NewDesc (BuildFQName namespace ''network'' ''transmit_errs_total'') [] [''interface'']),
      (8, NewDesc (BuildFQName namespace ''network'' ''transmit_drop_total'') [] [''interface''])]"

definition downstreamChannelMetrics :: metrics where
  "downstreamChannelMetrics =
     [(2, newChannelMetric ''downstream'' ''locked'' ''Downstream Lock Status'' []),
      (3, newChannelMetric ''downstream'' ''channel_type'' ''Downstream Channel Type'' [''type'']),
      (4, newChannelMetric ''downstream'' ''bonded'' ''Downstream Bonding Status'' []),
      (5, newChannelMetric ''downstream'' ''center_frequency_hz'' ''Downstream Center Frequency'' []),
      (6, newChannelMetric ''downstream'' ''width_hz'' ''Downstream Width'' []),
      (7, newChannelMetric ''downstream'' ''snr_threshold_db''
            ''Downstream SNR/MER Threshold Value'' []),
      (8, newChannelMetric ''downstream'' ''receive_level_dbmv'' ''Downstream Receive Level'' []),
      (9, newChannelMetric ''downstream'' ''modulation'' ''Downstream Modulation/Profile ID''
            [''modulation'']),
      (10, newChannelMetric ''downstream'' ''codewords_unerrored_total''
            ''Downstream Unerrored Codewords'' []),
      (11, newChannelMetric ''downstream'' ''codewords_corrected_total''
            ''Downstream Corrected Codewords'' []),
      (12, newChannelMetric ''downstream'' ''codewords_uncorrectable_total''
            ''Downstream Uncorrectable Codewords'' [])]"

definition upstreamChannelMetrics :: metrics where
  "upstreamChannelMetrics =
     [(2, newChannelMetric ''upstream'' ''locked'' ''Upstream Lock Status'' []),
      (3, newChannelMetric ''upstream'' ''channel_type'' ''Downstream Channel Type'' [''type'']),
      (4, newChannelMetric ''upstream'' ''bonded'' ''Upstream Bonding Status'' []),
      (5, newChannelMetric ''upstream'' ''center_frequency_hz'' ''Upstream Center Frequency'' []),
      (6, newChannelMetric ''upstream'' ''width_hz'' ''Upstream Width'' []),
      (7, newChannelMetric ''upstream'' ''transmit_level_dbmv'' ''Upstream Transmit Level'' []),
      (8, newChannelMetric ''upstream'' ''modulation'' ''Upstream Modulation/Profile ID''
            [''modulation''])]"

section \<open>The exporter\<close>

text \<open>
  The state that one poll changes: the metrics sent on the channel \<^verbatim>\<open>ch\<close> so far, the
  counter \<^verbatim>\<open>totalScrapes\<close>, the counter vector \<^verbatim>\<open>parseFailures\<close> (the count for
  each value of its label \<^verbatim>\<open>file\<close>; a child exists once its count is not zero), what
  \<^verbatim>\<open>log.Errorln\<close> has written, and the number of \<^verbatim>\<open>range\<close> statements over a
  metrics map that have been run.
\<close>

datatype logged = Logged_error error | Logged_text string

record state =
  ch :: "Metric list"
  totalScrapes :: nat
  parseFailures :: "string \<Rightarrow> nat"
  errorLog :: "logged list"
  ranges :: nat

text \<open>
  The collaborators that are not part of the repository: the HTTP client behind
  \<^verbatim>\<open>e.fetch\<close> (the body of a page, or an error), \<^verbatim>\<open>html.Parse\<close> and
  \<^verbatim>\<open>strconv.ParseFloat\<close>.
\<close>

record 'r world =
  fetch :: "string \<Rightarrow> error + 'r"
  html_Parse :: "'r \<Rightarrow> error + node"
  ParseFloat :: "string \<Rightarrow> float64 \<times> error option"

definition send :: "Metric \<Rightarrow> state \<Rightarrow> state" where
  "send m st = st\<lparr>ch := ch st @ [m]\<rparr>"

definition log_Errorln :: "logged \<Rightarrow> state \<Rightarrow> state" where
  "log_Errorln x st = st\<lparr>errorLog := errorLog st @ [x]\<rparr>"

definition Inc_parseFailures :: "string \<Rightarrow> state \<Rightarrow> state" where
  "Inc_parseFailures file st =
     st\<lparr>parseFailures := (parseFailures st)(file := Suc (parseFailures st file))\<rparr>"

text \<open>Reading \<^verbatim>\<open>xs[i]\<close>: out of range it panics.\<close>

definition index :: "'a list \<Rightarrow> int \<Rightarrow> 'a exec" where
  "index xs i = (if 0 \<le> i \<and> i < int (length xs) then Return (xs ! nat i) else Panic)"

text \<open>
  The order in which \<^verbatim>\<open>range\<close> visits the entries of a map is not specified and may
  differ from one \<^verbatim>\<open>range\<close> statement to the next. The choices of the run time are a
  parameter \<open>ord\<close> of the model: for the \<open>k\<close>-th \<^verbatim>\<open>range\<close> statement of a poll, a
  list of numbers, each of which picks the next entry among those not yet visited.
  Every list of numbers gives an order, and every order is given by one.
\<close>

fun shuffle :: "nat list \<Rightarrow> 'a list \<Rightarrow> 'a list" where
  "shuffle [] xs = xs"
| "shuffle (k # ks) xs =
     (if xs = [] then []
      else let i = k mod length xs in xs ! i # shuffle ks (take i xs @ drop (Suc i) xs))"

definition range_map :: "(nat \<Rightarrow> nat list) \<Rightarrow> metrics \<Rightarrow> state \<Rightarrow> (int \<times> Desc) list \<times> state" where
  "range_map ord m st = (shuffle (ord (ranges st)) m, st\<lparr>ranges := Suc (ranges st)\<rparr>)"

text \<open>A \<^verbatim>\<open>for\<close> loop over a list whose body changes the state, or panics.\<close>

fun for_each :: "('a \<Rightarrow> state \<Rightarrow> state exec) \<Rightarrow> 'a list \<Rightarrow> state \<Rightarrow> state exec" where
  "for_each body [] st = Return st"
| "for_each body (x # xs) st =
     (case body x st of
        Panic \<Rightarrow> Panic
      | Return st' \<Rightarrow> for_each body xs st')"

subsection \<open>The cases of the column switches\<close>

text \<open>
  What the \<^verbatim>\<open>switch\<close> of a column leaves behind: \<^verbatim>\<open>continue\<close>, or the variables
  \<^verbatim>\<open>value\<close>, \<^verbatim>\<open>err\<close> and \<^verbatim>\<open>labelValues\<close>. The bodies of the cases are the same
  text in the downstream and in the upstream loop, so each is defined once.
\<close>

datatype column_result = Continue | Computed float64 "error option" "string list"

definition int_case :: "string \<Rightarrow> string list \<Rightarrow> column_result" where
  \<comment> \<open>\<^verbatim>\<open>valueInt, err = strconv.ParseInt(row[i], 10, 64); value = float64(valueInt)\<close>\<close>
  "int_case cell labelValues =
     (case ParseInt cell of (valueInt, err) \<Rightarrow> Computed (Float64_of_int valueInt) err labelValues)"

definition equals_case :: "string \<Rightarrow> string \<Rightarrow> string list \<Rightarrow> column_result" where
  \<comment> \<open>\<^verbatim>\<open>if row[i] == "Locked" { value = 1 } else { value = 0 }\<close>\<close>
  "equals_case expected cell labelValues =
     Computed (if cell = expected then Float64_of_int 1 else Float64_of_int 0) None labelValues"

definition label_case :: "string \<Rightarrow> string list \<Rightarrow> column_result" where
  \<comment> \<open>\<^verbatim>\<open>labelValues = append(labelValues, row[i]); value = 1\<close>\<close>
  "label_case cell labelValues = Computed (Float64_of_int 1) None (labelValues @ [cell])"

definition unit_int_case :: "string \<Rightarrow> string list \<Rightarrow> column_result" where
  \<comment> \<open>the case \<^verbatim>\<open>5, 6\<close>: an integer and the unit \<^verbatim>\<open>Hz\<close> or \<^verbatim>\<open>kHz\<close>\<close>
  "unit_int_case cell labelValues =
     (case Split cell (CHR '' '') of
        [p0, p1] \<Rightarrow>
          (case ParseInt p0 of (valueInt, err) \<Rightarrow>
             if p1 = ''Hz'' then Computed (Float64_of_int valueInt) err labelValues
             else if p1 = ''kHz'' then
               Computed (Float64_of_int (int64_mul valueInt 1000)) err labelValues
             else Continue)
      | _ \<Rightarrow> Continue)"

definition unit_float_case :: "'r world \<Rightarrow> string \<Rightarrow> string \<Rightarrow> string list \<Rightarrow> column_result" where
  \<comment> \<open>the cases with a float and one fixed unit (\<^verbatim>\<open>dB\<close>, \<^verbatim>\<open>dBmV\<close>)\<close>
  "unit_float_case w unit cell labelValues =
     (case Split cell (CHR '' '') of
        [p0, p1] \<Rightarrow>
          if p1 \<noteq> unit then Continue
          else (case ParseFloat w p0 of (value, err) \<Rightarrow> Computed value err labelValues)
      | _ \<Rightarrow> Continue)"

definition downstream_switch :: "'r world \<Rightarrow> string list \<Rightarrow> string list \<Rightarrow> int \<Rightarrow> column_result exec" where
  "downstream_switch w row labelValues i =
     (if i = 10 \<or> i = 11 \<or> i = 12 then
        (case index row i of Panic \<Rightarrow> Panic
         | Return cell \<Rightarrow> Return (int_case cell labelValues))
      else if i = 2 then
        (case index row i of Panic \<Rightarrow> Panic
         | Return cell \<Rightarrow> Return (equals_case ''Locked'' cell labelValues))
      else if i = 3 \<or> i = 9 then
        (case index row i of Panic \<Rightarrow> Panic
         | Return cell \<Rightarrow> Return (label_case cell labelValues))
      else if i = 4 then
        (case index row i of Panic \<Rightarrow> Panic
         | Return cell \<Rightarrow> Return (equals_case ''Bonded'' cell labelValues))
      else if i = 5 \<or> i = 6 then
        (case index row i of Panic \<Rightarrow> Panic
         | Return cell \<Rightarrow> Return (unit_int_case cell labelValues))
      else if i = 7 then
        (case index row i of Panic \<Rightarrow> Panic
         | Return cell \<Rightarrow> Return (unit_float_case w ''dB'' cell labelValues))
      else if i = 8 then
        (case index row i of Panic \<Rightarrow> Panic
         | Return cell \<Rightarrow> Return (unit_float_case w ''dBmV'' cell labelValues))
      else Return Continue)"

definition upstream_switch :: "'r world \<Rightarrow> string list \<Rightarrow> string list \<Rightarrow> int \<Rightarrow> column_result exec" where
  "upstream_switch w row labelValues i =
     (if i = 2 then
        (case index row i of Panic \<Rightarrow> Panic
         | Return cell \<Rightarrow> Return (equals_case ''Locked'' cell labelValues))
      else if i = 3 \<or> i = 8 then
        (case index row i of Panic \<Rightarrow> Panic
         | Return cell \<Rightarrow> Return (label_case cell labelValues))
      else if i = 4 then
        (case index row i of Panic \<Rightarrow> Panic
         | Return cell \<Rightarrow> Return (equals_case ''Bonded'' cell labelValues))
      else if i = 5 \<or> i = 6 then
        (case index row i of Panic \<Rightarrow> Panic
         | Return cell \<Rightarrow> Return (unit_int_case cell labelValues))
      else if i = 7 then
        (case index row i of Panic \<Rightarrow> Panic
         | Return cell \<Rightarrow> Return (unit_float_case w ''dBmV'' cell labelValues))
      else Return Continue)"

subsection \<open>Columns, rows, pages\<close>

definition record_failure :: "string \<Rightarrow> logged \<Rightarrow> state \<Rightarrow> state" where
  \<comment> \<open>\<^verbatim>\<open>log.Errorln(...); e.parseFailures.WithLabelValues(file).Inc()\<close>\<close>
  "record_failure file x st = Inc_parseFailures file (log_Errorln x st)"

definition finish_column :: "string \<Rightarrow> Desc \<Rightarrow> column_result \<Rightarrow> state \<Rightarrow> state exec" where
  \<comment> \<open>the end of the body of a channel column, after the \<^verbatim>\<open>switch\<close>\<close>
  "finish_column file metric r st =
     (case r of
        Continue \<Rightarrow> Return st
      | Computed value err labelValues \<Rightarrow>
          (case err of
             Some e \<Rightarrow> Return (record_failure file (Logged_error e) st)
           | None \<Rightarrow>
               (case MustNewConstMetric metric CounterValue value labelValues of
                  Panic \<Rightarrow> Panic
                | Return m \<Rightarrow> Return (send m st))))"

definition network_column :: "string list \<Rightarrow> int \<times> Desc \<Rightarrow> state \<Rightarrow> state exec" where
  "network_column row = (\<lambda>(i, metric) st.
     case index row i of
       Panic \<Rightarrow> Panic
     | Return cell \<Rightarrow>
        (case ParseInt cell of (valueInt, err) \<Rightarrow>
           (case err of
              Some e \<Rightarrow> Return (record_failure ''statsifc.html'' (Logged_error e) st)
            | None \<Rightarrow>
               (case index row 0 of
                  Panic \<Rightarrow> Panic
                | Return interface \<Rightarrow>
                   (case MustNewConstMetric metric CounterValue (Float64_of_int valueInt)
                           [interface] of
                      Panic \<Rightarrow> Panic
                    | Return m \<Rightarrow> Return (send m st))))))"

definition downstream_column :: "'r world \<Rightarrow> string list \<Rightarrow> string \<Rightarrow> int \<times> Desc \<Rightarrow> state \<Rightarrow> state exec" where
  "downstream_column w row channelLabel = (\<lambda>(i, metric) st.
     case downstream_switch w row [channelLabel] i of
       Panic \<Rightarrow> Panic
     | Return r \<Rightarrow> finish_column ''cmconnectionstatus.html'' metric r st)"

definition upstream_column :: "'r world \<Rightarrow> string list \<Rightarrow> string \<Rightarrow> int \<times> Desc \<Rightarrow> state \<Rightarrow> state exec" where
  "upstream_column w row channelLabel = (\<lambda>(i, metric) st.
     case upstream_switch w row [channelLabel] i of
       Panic \<Rightarrow> Panic
     | Return r \<Rightarrow> finish_column ''cmconnectionstatus.html'' metric r st)"

definition network_row :: "(nat \<Rightarrow> nat list) \<Rightarrow> string list \<Rightarrow> state \<Rightarrow> state exec" where
  "network_row ord row st =
     (if length row \<noteq> 9 then Return st
      else (case range_map ord networkMetrics st of (columns, st') \<Rightarrow>
              for_each (network_column row) columns st'))"

definition channel_row ::
  "nat \<Rightarrow> metrics \<Rightarrow> (string list \<Rightarrow> string \<Rightarrow> int \<times> Desc \<Rightarrow> state \<Rightarrow> state exec) \<Rightarrow>
   (nat \<Rightarrow> nat list) \<Rightarrow> string list \<Rightarrow> state \<Rightarrow> state exec" where
  \<comment> \<open>the body of the row loop of a channel table; the two loops differ in the width, the
      map and the column body\<close>
  "channel_row width m column ord row st =
     (if length row \<noteq> width then Return st
      else
        (case index row 1 of
           Panic \<Rightarrow> Panic
         | Return cell \<Rightarrow>
            (case ParseInt cell of (channel, err) \<Rightarrow>
               (case err of
                  Some e \<Rightarrow>
                    Return (record_failure ''cmconnectionstatus.html'' (Logged_error e) st)
                | None \<Rightarrow>
                    (let channelLabel = Sprintf_02d channel in
                     case range_map ord m st of (columns, st') \<Rightarrow>
                       for_each (column row channelLabel) columns st')))))"

definition downstream_row :: "'r world \<Rightarrow> (nat \<Rightarrow> nat list) \<Rightarrow> string list \<Rightarrow> state \<Rightarrow> state exec" where
  "downstream_row w = channel_row 13 downstreamChannelMetrics (downstream_column w)"

definition upstream_row :: "'r world \<Rightarrow> (nat \<Rightarrow> nat list) \<Rightarrow> string list \<Rightarrow> state \<Rightarrow> state exec" where
  "upstream_row w = channel_row 9 upstreamChannelMetrics (upstream_column w)"

definition statsifc_page :: "'r world \<Rightarrow> (nat \<Rightarrow> nat list) \<Rightarrow> state \<Rightarrow> state exec" where
  "statsifc_page w ord st =
     (case fetch w ''statsifc.html'' of
        Inl err \<Rightarrow> Return st
      | Inr body \<Rightarrow>
         (case parseTables (html_Parse w body) of
            Panic \<Rightarrow> Panic
          | Return (Inl err) \<Rightarrow> Return (record_failure ''statsifc.html'' (Logged_error err) st)
          | Return (Inr tables) \<Rightarrow>
              if length tables < 1 \<or> length (tables ! 0) < 2 then
                Return (record_failure ''statsifc.html''
                          (Logged_text ''No table found in statsifc.html'') st)
              else for_each (network_row ord) (drop 2 (tables ! 0)) st))"

definition cmconnectionstatus_page :: "'r world \<Rightarrow> (nat \<Rightarrow> nat list) \<Rightarrow> state \<Rightarrow> state exec" where
  "cmconnectionstatus_page w ord st =
     (case fetch w ''cmconnectionstatus.html'' of
        Inl err \<Rightarrow> Return st
      | Inr body \<Rightarrow>
         (case parseTables (html_Parse w body) of
            Panic \<Rightarrow> Panic
          | Return (Inl err) \<Rightarrow>
              Return (record_failure ''cmconnectionstatus.html'' (Logged_error err) st)
          | Return (Inr tables) \<Rightarrow>
              if length tables < 3 \<or> length (tables ! 1) < 2 \<or> length (tables ! 2) < 2 then
                Return (record_failure ''cmconnectionstatus.html''
                          (Logged_text ''Tables not found in cmconnectionstatus.html'') st)
              else
                (case for_each (downstream_row w ord) (drop 2 (tables ! 1)) st of
                   Panic \<Rightarrow> Panic
                 | Return st' \<Rightarrow> for_each (upstream_row w ord) (drop 2 (tables ! 2)) st')))"

definition scrape :: "'r world \<Rightarrow> (nat \<Rightarrow> nat list) \<Rightarrow> state \<Rightarrow> (float64 \<times> state) exec" where
  "scrape w ord st =
     (case statsifc_page w ord (st\<lparr>totalScrapes := Suc (totalScrapes st)\<rparr>) of
        Panic \<Rightarrow> Panic
      | Return st1 \<Rightarrow>
         (case cmconnectionstatus_page w ord st1 of
            Panic \<Rightarrow> Panic
          | Return st2 \<Rightarrow> Return (Float64_of_int 1, st2)))"

text \<open>
  \<^verbatim>\<open>Collect\<close> sends what the poll sends, then the metric \<^verbatim>\<open>tc4400_up\<close>, then the
  metrics of the exporter's own four collectors. The mutex around it is not modelled:
  the model is one poll at a time.
\<close>

definition Collect :: "'r world \<Rightarrow> (nat \<Rightarrow> nat list) \<Rightarrow> state \<Rightarrow> state exec" where
  "Collect w ord st =
     (case scrape w ord st of
        Panic \<Rightarrow> Panic
      | Return (up, st') \<Rightarrow>
         (case MustNewConstMetric targetUpMetric GaugeValue up [] of
            Panic \<Rightarrow> Panic
          | Return m \<Rightarrow>
             Return (send (CollectedFrom ''tc4400_exporter_client_request_duration_seconds'')
                    (send (CollectedFrom ''tc4400_exporter_client_requests_total'')
                    (send (CollectedFrom ''tc4400_exporter_parse_errors_total'')
                    (send (CollectedFrom ''tc4400_exporter_scrapes_total'')
                    (send m st')))))))"

section \<open>Example documents and pages\<close>

text \<open>Shorthands for writing down example documents.\<close>

definition element :: "atom \<Rightarrow> string \<Rightarrow> node list \<Rightarrow> node" where
  "element a name cs = Node ElementNode a name cs"

definition text_node :: "string \<Rightarrow> node" where
  "text_node s = Node TextNode OtherAtom s []"

definition document :: "node list \<Rightarrow> node" where
  "document body_children =
     Node DocumentNode OtherAtom []
       [element OtherAtom ''html''
          [element OtherAtom ''head'' [], element OtherAtom ''body'' body_children]]"

definition simple_table :: "string list list \<Rightarrow> node" where
  "simple_table rows =
     element Table ''table''
       [element Tbody ''tbody''
          (map (\<lambda>row. element Tr ''tr'' (map (\<lambda>c. element Td ''td'' [text_node c]) row)) rows)]"


definition nested_table_document :: node where
  \<comment> \<open>a table whose only cell holds the text \<open>o\<close> and a second table\<close>
  "nested_table_document =
     document
       [element Table ''table''
          [element Tbody ''tbody''
             [element Tr ''tr''
                [element Td ''td'' [text_node ''o'', simple_table [[''in'']]]]]]]"

definition deep_cell :: node where
  \<comment> \<open>the cell \<^verbatim>\<open><td><b><i>a</i></b>c</td>\<close>\<close>
  "deep_cell =
     element Td ''td''
       [element OtherAtom ''b'' [element OtherAtom ''i'' [text_node ''a'']], text_node ''c'']"

definition deep_cell_document :: node where
  "deep_cell_document =
     document [element Table ''table'' [element Tbody ''tbody'' [element Tr ''tr'' [deep_cell]]]]"

definition late_table_document :: node where
  \<comment> \<open>\<^verbatim>\<open><div><p>x</p></div>\<close> followed by a table\<close>
  "late_table_document =
     document
       [element OtherAtom ''div'' [element OtherAtom ''p'' [text_node ''x'']],
        simple_table [[''y'']]]"

definition example_root :: ptr where
  "example_root = Ptr (element Td ''td'' [text_node ''a'', text_node ''b'']) [] None"

definition example_first :: ptr where
  "example_first = Ptr (text_node ''a'') [text_node ''b''] (Some example_root)"

definition example_second :: ptr where
  "example_second = Ptr (text_node ''b'') [] (Some example_root)"

definition two_tables_document :: node where
  "two_tables_document = document [simple_table [[''a'', ''b''], ['' c '']], simple_table [[''x'']]]"

text \<open>Example pages of the modem, and two orders of visiting a metrics map.\<close>

definition initial_state :: state where
  "initial_state = \<lparr>ch = [], totalScrapes = 0, parseFailures = (\<lambda>file. 0), errorLog = [], ranges = 0\<rparr>"

definition example_ParseFloat :: "string \<Rightarrow> float64 \<times> error option" where
  \<comment> \<open>a stand-in that accepts digits with decimal points and rejects every other text\<close>
  "example_ParseFloat s =
     (if s \<noteq> [] \<and> list_all (\<lambda>c. is_digit c \<or> c = CHR ''.'') s then (Float64_of_text s, None)
      else (Float64_of_int 0, Some (ErrSyntax s)))"

definition example_world :: "(string \<times> node list) list \<Rightarrow> (node list) world" where
  \<comment> \<open>the pages that the modem serves, each given by the content of its \<^verbatim>\<open>body\<close>
      element; any other page fails to load\<close>
  "example_world pages =
     \<lparr>fetch = (\<lambda>filename. case map_of pages filename of
                  None \<Rightarrow> Inl (ExternalError ''Scraping failed'')
                | Some body \<Rightarrow> Inr body),
      html_Parse = (\<lambda>body. Inr (document body)),
      ParseFloat = example_ParseFloat\<rparr>"

definition header_rows :: "string list list" where
  "header_rows = [[''Title''], [''Column'', ''names'']]"

definition downstream_example_row :: "string list" where
  "downstream_example_row =
     ['''', ''1'', ''Locked'', ''QAM256'', ''Bonded'', ''603000000 Hz'', ''6400000 Hz'',
      ''35 dB'', ''3.5 dBmV'', ''256QAM'', ''100'', ''2'', ''0'']"

definition upstream_example_row :: "string list" where
  "upstream_example_row =
     ['''', ''2'', ''Locked'', ''SC-QAM'', ''Bonded'', ''30800 kHz'', ''6400 kHz'',
      ''40.5 dBmV'', ''ATDMA'']"

definition network_example_row :: "string list" where
  "network_example_row = [''eth0'', ''10'', ''20'', ''0'', ''1'', ''30'', ''40'', ''0'', ''2'']"

definition statsifc_example :: "node list" where
  "statsifc_example = [simple_table (header_rows @ [network_example_row])]"

definition cmconnectionstatus_page_of :: "string list \<Rightarrow> string list \<Rightarrow> node list" where
  "cmconnectionstatus_page_of down up =
     [simple_table [[''Status'']],
      simple_table (header_rows @ [down]),
      simple_table (header_rows @ [up])]"

definition cmconnectionstatus_example :: "node list" where
  "cmconnectionstatus_example =
     cmconnectionstatus_page_of downstream_example_row upstream_example_row"

definition in_order :: "nat \<Rightarrow> nat list" where
  \<comment> \<open>every \<^verbatim>\<open>range\<close> statement visits the entries as they are written\<close>
  "in_order k = []"

definition second_first :: "nat \<Rightarrow> nat list" where
  \<comment> \<open>every \<^verbatim>\<open>range\<close> statement starts with the second entry\<close>
  "second_first k = [1]"

text \<open>One descriptor of the downstream table, and the first label value of a metric.\<close>

definition width_hz :: Desc where
  "width_hz = newChannelMetric ''downstream'' ''width_hz'' ''Downstream Width'' []"

definition first_label :: "Metric \<Rightarrow> string" where
  "first_label m = (case m of ConstMetric d t v (l # ls) \<Rightarrow> l | _ \<Rightarrow> [])"

section \<open>What the specification says about the extractor\<close>

text \<open>
  The table elements of a document, in document order (depth first, a node before its
  children), each as the pointer that the walk would hold.
\<close>

fun table_ptrs :: "node \<Rightarrow> node list \<Rightarrow> ptr option \<Rightarrow> ptr list"
  and table_ptrs_chain :: "node list \<Rightarrow> ptr option \<Rightarrow> ptr list" where
  "table_ptrs (Node ty a d cs) sibs par =
     (let n = Ptr (Node ty a d cs) sibs par in
      (if is_table n then [n] else []) @ table_ptrs_chain cs (Some n))"
| "table_ptrs_chain [] par = []"
| "table_ptrs_chain (c # cs) par = table_ptrs c cs par @ table_ptrs_chain cs par"

text \<open>The text of the descendants of a cell: its text nodes' data, in document order.\<close>

fun node_text :: "node \<Rightarrow> string" where
  "node_text (Node ty a d cs) = (if ty = TextNode then d else []) @ concat (map node_text cs)"

definition descendant_text :: "node \<Rightarrow> string" where
  "descendant_text cellNode = concat (map node_text (children cellNode))"

section \<open>The walks stay inside their tree\<close>

text \<open>The chain of \<^verbatim>\<open>Parent\<close> pointers of a node, nearest first.\<close>

fun ancestors :: "ptr \<Rightarrow> ptr list" where
  "ancestors (Ptr n sibs None) = []"
| "ancestors (Ptr n sibs (Some q)) = q # ancestors q"

lemma ancestors_FirstChild: "FirstChild n = Some c \<Longrightarrow> ancestors c = n # ancestors n"
  by (auto simp: FirstChild_def split: list.splits)

lemma ancestors_NextSibling: "NextSibling n = Some m \<Longrightarrow> ancestors m = ancestors n"
  by (cases n; cases "Parent n") (auto simp: NextSibling_def split: list.splits)

lemma ancestors_Parent: "Parent n = Some q \<Longrightarrow> ancestors n = q # ancestors q"
  by (cases n) auto

lemma ancestors_no_Parent: "Parent n = None \<Longrightarrow> ancestors n = []"
  by (cases n) auto

lemma content_advance_inside:
  assumes "cellNode \<in> set (ancestors n)"
  shows "\<exists>next. content_advance cellNode n = Return next
           \<and> (\<forall>m. next = Some m \<longrightarrow> cellNode \<in> set (ancestors m))"
proof (cases "Parent n")
  case None
  with assms show ?thesis by (simp add: ancestors_no_Parent)
next
  case (Some q)
  with assms have "q = cellNode \<or> cellNode \<in> set (ancestors q)"
    by (auto simp: ancestors_Parent)
  with Some assms show ?thesis
    by (auto simp: content_advance_def ancestors_NextSibling)
qed

lemma content_loop_no_panic:
  "(\<And>c. contentNode = Some c \<Longrightarrow> cellNode \<in> set (ancestors c)) \<Longrightarrow>
   content_loop cellNode contentNode contentBuffer \<noteq> Panic"
proof (induction cellNode contentNode contentBuffer rule: content_loop.induct)
  case (1 cellNode contentBuffer)
  then show ?case by simp
next
  case (2 cellNode contentNode contentBuffer)
  have inside: "cellNode \<in> set (ancestors contentNode)" using "2.prems" by simp
  from content_advance_inside [OF inside] obtain "next" where
    adv: "content_advance cellNode contentNode = Return next"
    and nxt: "\<And>m. next = Some m \<Longrightarrow> cellNode \<in> set (ancestors m)" by blast
  show ?case
  proof (cases "Type (node contentNode) = TextNode")
    case True
    with adv nxt "2.IH"(1) show ?thesis by (simp add: content_loop.simps(2))
  next
    case False
    show ?thesis
    proof (cases "FirstChild contentNode")
      case None
      with False adv nxt "2.IH" show ?thesis by (simp add: content_loop.simps(2))
    next
      case (Some c)
      with inside have "cellNode \<in> set (ancestors c)" by (simp add: ancestors_FirstChild)
      with False Some "2.IH" show ?thesis by (simp add: content_loop.simps(2))
    qed
  qed
qed

lemma cell_loop_no_panic: "cell_loop cellNode row \<noteq> Panic"
proof (induction cellNode row rule: cell_loop.induct)
  case (1 row)
  then show ?case by simp
next
  case (2 cellNode row)
  have "content_loop cellNode (FirstChild cellNode) [] \<noteq> Panic"
    by (rule content_loop_no_panic) (simp add: ancestors_FirstChild)
  then obtain buf where "content_loop cellNode (FirstChild cellNode) [] = Return buf"
    by (cases "content_loop cellNode (FirstChild cellNode) []") auto
  with 2 show ?case by (simp add: cell_loop.simps(2))
qed

lemma row_loop_no_panic: "row_loop rowNode table \<noteq> Panic"
proof (induction rowNode table rule: row_loop.induct)
  case (1 table)
  then show ?case by simp
next
  case (2 rowNode table)
  obtain row where "cell_loop (FirstChild rowNode) [] = Return row"
    using cell_loop_no_panic [of "FirstChild rowNode" "[]"]
    by (cases "cell_loop (FirstChild rowNode) []") auto
  with 2 show ?case by (simp add: row_loop.simps(2))
qed

lemma body_loop_no_panic: "body_loop bodyNode table \<noteq> Panic"
proof (induction bodyNode table rule: body_loop.induct)
  case (1 table)
  then show ?case by simp
next
  case (2 bodyNode table)
  obtain table' where "row_loop (FirstChild bodyNode) table = Return table'"
    using row_loop_no_panic [of "FirstChild bodyNode" table]
    by (cases "row_loop (FirstChild bodyNode) table") auto
  with 2 show ?case by (simp add: body_loop.simps(2))
qed

lemma parseTable_Return: "\<exists>t. parseTable tableNode = Return t"
  using body_loop_no_panic [of "FirstChild tableNode" "[]"]
  by (cases "parseTable tableNode") (auto simp: parseTable_def)

lemma tables_advance_inside:
  assumes "doc \<in> set (ancestors n)"
  shows "\<exists>next. tables_advance doc n = Return next
           \<and> (\<forall>m. next = Some m \<longrightarrow> doc \<in> set (ancestors m))"
proof (cases "Parent n")
  case None
  with assms show ?thesis by (simp add: ancestors_no_Parent)
next
  case (Some q)
  with assms have "q = doc \<or> doc \<in> set (ancestors q)"
    by (auto simp: ancestors_Parent)
  with Some assms show ?thesis
    by (auto simp: tables_advance_def ancestors_NextSibling)
qed

lemma parseTables_loop_no_panic:
  "doc \<in> set (ancestors n) \<Longrightarrow> parseTables_loop doc n tables \<noteq> Panic"
proof (induction doc n tables rule: parseTables_loop.induct)
  case (1 doc n tables)
  from tables_advance_inside [OF "1.prems"] obtain "next" where
    adv: "tables_advance doc n = Return next"
    and nxt: "\<And>m. next = Some m \<Longrightarrow> doc \<in> set (ancestors m)" by blast
  obtain t where t: "parseTable n = Return t" using parseTable_Return by blast
  show ?case
  proof (cases "is_table n")
    case True
    with adv nxt t "1.IH"(1) show ?thesis
      by (cases "next") (simp_all add: parseTables_loop.simps [of doc n])
  next
    case False
    show ?thesis
    proof (cases "FirstChild n")
      case None
      with False adv nxt "1.IH" show ?thesis
        by (cases "next") (simp_all add: parseTables_loop.simps [of doc n])
    next
      case (Some c)
      with "1.prems" have "doc \<in> set (ancestors c)" by (simp add: ancestors_FirstChild)
      with False Some "1.IH" show ?thesis
        by (simp add: parseTables_loop.simps [of doc n])
    qed
  qed
qed

lemma parseTables_no_panic:
  assumes "children d \<noteq> []" and "\<not> is_table (Ptr d [] None)"
  shows "\<exists>tables. parseTables (Inr d) = Return (Inr tables)"
proof -
  let ?doc = "Ptr d [] None"
  from assms(1) obtain c where c: "FirstChild ?doc = Some c"
    by (cases "children d") (auto simp: FirstChild_def)
  then have "?doc \<in> set (ancestors c)" by (simp add: ancestors_FirstChild)
  then have "parseTables_loop ?doc c [] \<noteq> Panic" by (rule parseTables_loop_no_panic)
  with c assms(2) have "parseTables_loop ?doc ?doc [] \<noteq> Panic"
    by (simp add: parseTables_loop.simps [of ?doc ?doc])
  then show ?thesis
    by (cases "parseTables_loop ?doc ?doc []") (auto simp: parseTables_def)
qed

text \<open>
  A document node without children is the one input on which \<^verbatim>\<open>parseTables\<close> does not
  return: the walk starts at the document, whose parent is \<^verbatim>\<open>nil\<close>, and reads
  \<^verbatim>\<open>n.Parent.NextSibling\<close>. \<^verbatim>\<open>html.Parse\<close> returns no such document: it always adds
  the \<^verbatim>\<open>html\<close> element.
\<close>

lemma parseTables_childless_document:
  "parseTables (Inr (Node DocumentNode OtherAtom [] [])) = Panic"
  by code_simp

section \<open>The tables that the document walk reaches\<close>

text \<open>
  The walk of \<^verbatim>\<open>parseTables\<close> does not enter a table element: its body descends to the
  first child only in the \<^verbatim>\<open>else\<close> branch of the test for a table. So the tables it
  can reach are those that are not inside another table.
\<close>

fun outer_tables :: "node \<Rightarrow> node list \<Rightarrow> ptr option \<Rightarrow> ptr list"
  and outer_tables_chain :: "node list \<Rightarrow> ptr option \<Rightarrow> ptr list" where
  "outer_tables (Node ty a d cs) sibs par =
     (let n = Ptr (Node ty a d cs) sibs par in
      if is_table n then [n] else outer_tables_chain cs (Some n))"
| "outer_tables_chain [] par = []"
| "outer_tables_chain (c # cs) par = outer_tables c cs par @ outer_tables_chain cs par"

fun pending_after :: "ptr \<Rightarrow> ptr list" where
  "pending_after (Ptr n sibs None) = outer_tables_chain sibs None"
| "pending_after (Ptr n sibs (Some q)) = outer_tables_chain sibs (Some q) @ pending_after q"

definition pending :: "ptr \<Rightarrow> ptr list" where
  "pending n = outer_tables (node n) (siblings n) (Parent n) @ pending_after n"

lemma pending_after_unfold:
  "pending_after n = outer_tables_chain (siblings n) (Parent n)
      @ (case Parent n of None \<Rightarrow> [] | Some q \<Rightarrow> pending_after q)"
  by (cases n; cases "Parent n") auto

lemma pending_NextSibling: "NextSibling n = Some m \<Longrightarrow> pending m = pending_after n"
  by (cases n; cases "Parent n")
     (auto simp: NextSibling_def pending_def split: list.splits)

lemma pending_after_last_child:
  "NextSibling n = None \<Longrightarrow> Parent n = Some q \<Longrightarrow> pending_after n = pending_after q"
  by (cases n) (auto simp: NextSibling_def split: list.splits)

lemma pending_tables_advance:
  "tables_advance doc n = Return (Some m) \<Longrightarrow> pending m = pending_after n"
  by (auto simp: tables_advance_def pending_NextSibling pending_after_last_child
      split: if_splits option.splits)

lemma pending_is_table: "is_table n \<Longrightarrow> pending n = n # pending_after n"
  by (cases n; cases "node n") (auto simp: pending_def)

lemma pending_FirstChild:
  "\<not> is_table n \<Longrightarrow> FirstChild n = Some c \<Longrightarrow> pending c = pending n"
  by (cases n; cases "node n")
     (auto simp: pending_def FirstChild_def split: list.splits)

lemma pending_leaf:
  "\<not> is_table n \<Longrightarrow> FirstChild n = None \<Longrightarrow> pending n = pending_after n"
  by (cases n; cases "node n")
     (auto simp: pending_def FirstChild_def split: list.splits)

lemma parseTables_loop_prefix:
  "parseTables_loop doc n tables = Return result \<Longrightarrow>
   prefix (map Return result) (map Return tables @ map parseTable (pending n))"
proof (induction doc n tables arbitrary: result rule: parseTables_loop.induct)
  case (1 doc n tables)
  note run = "1.prems" [unfolded parseTables_loop.simps [of doc n tables]]
  show ?case
  proof (cases "is_table n")
    case True
    obtain t where t: "parseTable n = Return t" using parseTable_Return by blast
    show ?thesis
    proof (cases "tables_advance doc n")
      case Panic
      with run True t show ?thesis by simp
    next
      case (Return nxt)
      show ?thesis
      proof (cases nxt)
        case None
        with run True t Return have "result = tables @ [t]" by simp
        with True t show ?thesis by (simp add: pending_is_table)
      next
        case (Some n')
        with run True t Return have "parseTables_loop doc n' (tables @ [t]) = Return result"
          by simp
        with "1.IH" True t Return Some
        have "prefix (map Return result) (map Return (tables @ [t]) @ map parseTable (pending n'))"
          by simp
        with True t Return Some show ?thesis
          by (simp add: pending_is_table pending_tables_advance)
      qed
    qed
  next
    case False
    show ?thesis
    proof (cases "FirstChild n")
      case (Some c)
      with run False have "parseTables_loop doc c tables = Return result" by simp
      with "1.IH" False Some show ?thesis by (simp add: pending_FirstChild)
    next
      case None
      show ?thesis
      proof (cases "tables_advance doc n")
        case Panic
        with run False None show ?thesis by simp
      next
        case (Return nxt)
        show ?thesis
        proof (cases nxt)
          case N: None
          with run False None Return have "result = tables" by simp
          then show ?thesis by simp
        next
          case (Some n')
          with run False None Return have "parseTables_loop doc n' tables = Return result"
            by simp
          with "1.IH" False None Return Some
          have "prefix (map Return result) (map Return tables @ map parseTable (pending n'))"
            by simp
          with False None Return Some show ?thesis
            by (simp add: pending_leaf pending_tables_advance)
        qed
      qed
    qed
  qed
qed

lemma pending_doc: "pending (Ptr d [] None) = outer_tables d [] None"
  by (simp add: pending_def)

lemma parseTables_prefix:
  "parseTables (Inr d) = Return (Inr tables) \<Longrightarrow>
   prefix (map Return tables) (map parseTable (outer_tables d [] None))"
  using parseTables_loop_prefix [of "Ptr d [] None" "Ptr d [] None" "[]" tables]
  by (auto simp: parseTables_def pending_doc Let_def split: exec.splits)

definition inside_table :: "ptr \<Rightarrow> bool" where
  "inside_table n \<longleftrightarrow> (\<exists>q \<in> set (ancestors n). is_table q)"

lemma inside_table_Ptr:
  "inside_table (Ptr n sibs par) \<longleftrightarrow>
     (case par of None \<Rightarrow> False | Some q \<Rightarrow> is_table q \<or> inside_table q)"
  by (cases par) (auto simp: inside_table_def)

lemma table_ptrs_inside:
  "(case par of None \<Rightarrow> False | Some q \<Rightarrow> is_table q \<or> inside_table q) \<Longrightarrow>
     filter (\<lambda>n. \<not> inside_table n) (table_ptrs nd sibs par) = []"
  "(case par of None \<Rightarrow> False | Some q \<Rightarrow> is_table q \<or> inside_table q) \<Longrightarrow>
     filter (\<lambda>n. \<not> inside_table n) (table_ptrs_chain cs par) = []"
  by (induction nd sibs par and cs par rule: table_ptrs_table_ptrs_chain.induct)
     (auto simp: Let_def inside_table_Ptr split: option.splits)

lemma outer_tables_filter:
  "\<not> (case par of None \<Rightarrow> False | Some q \<Rightarrow> is_table q \<or> inside_table q) \<Longrightarrow>
     outer_tables nd sibs par = filter (\<lambda>n. \<not> inside_table n) (table_ptrs nd sibs par)"
  "\<not> (case par of None \<Rightarrow> False | Some q \<Rightarrow> is_table q \<or> inside_table q) \<Longrightarrow>
     outer_tables_chain cs par = filter (\<lambda>n. \<not> inside_table n) (table_ptrs_chain cs par)"
proof (induction nd sibs par and cs par rule: table_ptrs_table_ptrs_chain.induct)
  case (1 ty a d cs sibs par)
  let ?n = "Ptr (Node ty a d cs) sibs par"
  have here: "\<not> inside_table ?n" using "1.prems" by (simp add: inside_table_Ptr)
  show ?case
  proof (cases "is_table ?n")
    case True
    then have "filter (\<lambda>n. \<not> inside_table n) (table_ptrs_chain cs (Some ?n)) = []"
      by (intro table_ptrs_inside) simp
    with True here show ?thesis by (simp add: Let_def)
  next
    case False
    with here "1.IH" show ?thesis by (simp add: Let_def)
  qed
next
  case (2 par)
  then show ?case by simp
next
  case (3 c cs par)
  then show ?case by simp
qed

lemma outer_tables_document:
  "outer_tables d [] None = filter (\<lambda>n. \<not> inside_table n) (table_ptrs d [] None)"
  by (rule outer_tables_filter) simp

section \<open>Facts about the decoder\<close>

subsection \<open>State updates\<close>

lemma ch_send [simp]: "ch (send m st) = ch st @ [m]"
  and totalScrapes_send [simp]: "totalScrapes (send m st) = totalScrapes st"
  and parseFailures_send [simp]: "parseFailures (send m st) = parseFailures st"
  and errorLog_send [simp]: "errorLog (send m st) = errorLog st"
  and ranges_send [simp]: "ranges (send m st) = ranges st"
  by (simp_all add: send_def)

lemma ch_record_failure [simp]: "ch (record_failure file x st) = ch st"
  and totalScrapes_record_failure [simp]:
    "totalScrapes (record_failure file x st) = totalScrapes st"
  and parseFailures_record_failure [simp]:
    "parseFailures (record_failure file x st)
       = (parseFailures st)(file := Suc (parseFailures st file))"
  and errorLog_record_failure [simp]:
    "errorLog (record_failure file x st) = errorLog st @ [x]"
  and ranges_record_failure [simp]: "ranges (record_failure file x st) = ranges st"
  by (simp_all add: record_failure_def Inc_parseFailures_def log_Errorln_def)

lemma channel_row_mismatch:
  "length row \<noteq> width \<Longrightarrow> channel_row width m column ord row st = Return st"
  by (simp add: channel_row_def)

lemma channel_row_key_failure:
  "length row = width \<Longrightarrow> index row 1 = Return cell \<Longrightarrow> ParseInt cell = (v, Some e) \<Longrightarrow>
   channel_row width m column ord row st
     = Return (record_failure ''cmconnectionstatus.html'' (Logged_error e) st)"
  by (simp add: channel_row_def)

subsection \<open>Column bodies as effects\<close>

text \<open>
  The body of a column loop does one of three things to the state, and which one does not
  depend on the state: nothing, recording a failure, or sending a metric.
\<close>

datatype effect = Nothing | Failed logged | Sent Metric

definition apply_effect :: "string \<Rightarrow> effect \<Rightarrow> state \<Rightarrow> state" where
  "apply_effect file e st =
     (case e of Nothing \<Rightarrow> st | Failed x \<Rightarrow> record_failure file x st | Sent m \<Rightarrow> send m st)"

definition sent_by :: "effect exec \<Rightarrow> Metric list" where
  "sent_by r = (case r of Return (Sent m) \<Rightarrow> [m] | _ \<Rightarrow> [])"

definition logged_by :: "effect exec \<Rightarrow> logged list" where
  "logged_by r = (case r of Return (Failed x) \<Rightarrow> [x] | _ \<Rightarrow> [])"

definition is_effect_of :: "('a \<Rightarrow> state \<Rightarrow> state exec) \<Rightarrow> string \<Rightarrow> ('a \<Rightarrow> effect exec) \<Rightarrow> bool" where
  "is_effect_of body file eff \<longleftrightarrow>
     (\<forall>x st. body x st = (case eff x of Panic \<Rightarrow> Panic | Return e \<Rightarrow> Return (apply_effect file e st)))"

lemma for_each_effects:
  assumes "is_effect_of body file eff"
  shows "for_each body xs st = Return st' \<Longrightarrow>
     ch st' = ch st @ concat (map (\<lambda>x. sent_by (eff x)) xs)
     \<and> errorLog st' = errorLog st @ concat (map (\<lambda>x. logged_by (eff x)) xs)
     \<and> parseFailures st' = (parseFailures st)
          (file := parseFailures st file + length (concat (map (\<lambda>x. logged_by (eff x)) xs)))
     \<and> totalScrapes st' = totalScrapes st
     \<and> ranges st' = ranges st"
proof (induction xs arbitrary: st)
  case Nil
  then show ?case by simp
next
  case (Cons x xs)
  from assms have step: "body x st = (case eff x of Panic \<Rightarrow> Panic
      | Return e \<Rightarrow> Return (apply_effect file e st))"
    by (simp add: is_effect_of_def)
  show ?case
  proof (cases "eff x")
    case Panic
    with step Cons.prems show ?thesis by simp
  next
    case (Return e)
    with step Cons.prems have "for_each body xs (apply_effect file e st) = Return st'"
      by simp
    from Cons.IH [OF this] Return show ?thesis
      by (cases e) (auto simp: apply_effect_def sent_by_def logged_by_def fun_eq_iff)
  qed
qed

lemma for_each_effects_Panic:
  assumes "is_effect_of body file eff"
  shows "for_each body xs st = Panic \<longleftrightarrow> (\<exists>x \<in> set xs. eff x = Panic)"
proof (induction xs arbitrary: st)
  case Nil
  then show ?case by simp
next
  case (Cons x xs)
  from assms have step: "body x st = (case eff x of Panic \<Rightarrow> Panic
      | Return e \<Rightarrow> Return (apply_effect file e st))"
    by (simp add: is_effect_of_def)
  show ?case using step Cons.IH by (cases "eff x") auto
qed

definition agree :: "state \<Rightarrow> state \<Rightarrow> bool" where
  "agree s t \<longleftrightarrow>
     mset (ch s) = mset (ch t) \<and> mset (errorLog s) = mset (errorLog t)
     \<and> totalScrapes s = totalScrapes t \<and> parseFailures s = parseFailures t
     \<and> ranges s = ranges t"

definition agree_exec :: "state exec \<Rightarrow> state exec \<Rightarrow> bool" where
  "agree_exec r1 r2 \<longleftrightarrow>
     (case r1 of
        Panic \<Rightarrow> r2 = Panic
      | Return s \<Rightarrow> (case r2 of Panic \<Rightarrow> False | Return t \<Rightarrow> agree s t))"

lemma agree_refl [simp]: "agree s s"
  by (simp add: agree_def)

lemma mset_concat_map:
  "mset (concat (map f xs)) = sum_mset (image_mset (\<lambda>x. mset (f x)) (mset xs))"
  by (induction xs) simp_all

lemma mset_concat_map_cong:
  "mset xs = mset ys \<Longrightarrow> mset (concat (map f xs)) = mset (concat (map f ys))"
  by (simp add: mset_concat_map)

lemma for_each_effects_agree:
  assumes eff: "is_effect_of body file eff"
    and perm: "mset xs = mset ys"
    and start: "agree s t"
  shows "agree_exec (for_each body xs s) (for_each body ys t)"
proof -
  from perm have sets: "set xs = set ys" by (rule mset_eq_setD)
  have sent: "mset (concat (map (\<lambda>x. sent_by (eff x)) xs))
      = mset (concat (map (\<lambda>x. sent_by (eff x)) ys))"
    using perm by (rule mset_concat_map_cong)
  have logged: "mset (concat (map (\<lambda>x. logged_by (eff x)) xs))
      = mset (concat (map (\<lambda>x. logged_by (eff x)) ys))"
    using perm by (rule mset_concat_map_cong)
  from logged have count: "length (concat (map (\<lambda>x. logged_by (eff x)) xs))
      = length (concat (map (\<lambda>x. logged_by (eff x)) ys))"
    by (rule mset_eq_length)
  show ?thesis
  proof (cases "for_each body xs s")
    case Panic
    with for_each_effects_Panic [OF eff, of xs s] sets
      for_each_effects_Panic [OF eff, of ys t]
    show ?thesis by (simp add: agree_exec_def)
  next
    case (Return s')
    with for_each_effects_Panic [OF eff, of xs s] sets
      for_each_effects_Panic [OF eff, of ys t]
    obtain t' where t': "for_each body ys t = Return t'"
      by (cases "for_each body ys t") auto
    from for_each_effects [OF eff Return] for_each_effects [OF eff t'] start sent logged count
    have "agree s' t'" by (simp add: agree_def)
    with Return t' show ?thesis by (simp add: agree_exec_def)
  qed
qed

lemma for_each_agree:
  assumes "\<And>x s t. agree s t \<Longrightarrow> agree_exec (b1 x s) (b2 x t)"
  shows "agree s t \<Longrightarrow> agree_exec (for_each b1 xs s) (for_each b2 xs t)"
proof (induction xs arbitrary: s t)
  case Nil
  then show ?case by (simp add: agree_exec_def)
next
  case (Cons x xs)
  from assms [OF Cons.prems] have head: "agree_exec (b1 x s) (b2 x t)" .
  show ?case
  proof (cases "b1 x s")
    case Panic
    with head show ?thesis by (simp add: agree_exec_def)
  next
    case (Return s')
    with head obtain t' where t': "b2 x t = Return t'" and "agree s' t'"
      by (cases "b2 x t") (auto simp: agree_exec_def)
    from Cons.IH [OF this(2)] Return t' show ?thesis by simp
  qed
qed

lemma mset_shuffle: "mset (shuffle ks xs) = mset xs"
proof (induction ks arbitrary: xs)
  case Nil
  then show ?case by simp
next
  case (Cons k ks)
  show ?case
  proof (cases "xs = []")
    case True
    then show ?thesis by simp
  next
    case False
    let ?i = "k mod length xs"
    from False have i: "?i < length xs" by simp
    then have "xs = take ?i xs @ xs ! ?i # drop (Suc ?i) xs"
      by (rule id_take_nth_drop)
    then have "mset xs = mset (take ?i xs @ drop (Suc ?i) xs) + {#xs ! ?i#}"
      by (metis add_mset_add_single mset.simps(2) mset_append union_mset_add_mset_right)
    with False Cons.IH [of "take ?i xs @ drop (Suc ?i) xs"] show ?thesis
      by (simp add: Let_def)
  qed
qed

definition finish_effect :: "Desc \<Rightarrow> column_result \<Rightarrow> effect exec" where
  "finish_effect metric r =
     (case r of
        Continue \<Rightarrow> Return Nothing
      | Computed value err labelValues \<Rightarrow>
          (case err of
             Some e \<Rightarrow> Return (Failed (Logged_error e))
           | None \<Rightarrow>
               (case MustNewConstMetric metric CounterValue value labelValues of
                  Panic \<Rightarrow> Panic
                | Return m \<Rightarrow> Return (Sent m))))"

definition network_effect :: "string list \<Rightarrow> int \<times> Desc \<Rightarrow> effect exec" where
  "network_effect row = (\<lambda>(i, metric).
     case index row i of
       Panic \<Rightarrow> Panic
     | Return cell \<Rightarrow>
        (case ParseInt cell of (valueInt, err) \<Rightarrow>
           (case err of
              Some e \<Rightarrow> Return (Failed (Logged_error e))
            | None \<Rightarrow>
               (case index row 0 of
                  Panic \<Rightarrow> Panic
                | Return interface \<Rightarrow>
                   (case MustNewConstMetric metric CounterValue (Float64_of_int valueInt)
                           [interface] of
                      Panic \<Rightarrow> Panic
                    | Return m \<Rightarrow> Return (Sent m))))))"

definition downstream_effect :: "'r world \<Rightarrow> string list \<Rightarrow> string \<Rightarrow> int \<times> Desc \<Rightarrow> effect exec" where
  "downstream_effect w row channelLabel = (\<lambda>(i, metric).
     case downstream_switch w row [channelLabel] i of
       Panic \<Rightarrow> Panic
     | Return r \<Rightarrow> finish_effect metric r)"

definition upstream_effect :: "'r world \<Rightarrow> string list \<Rightarrow> string \<Rightarrow> int \<times> Desc \<Rightarrow> effect exec" where
  "upstream_effect w row channelLabel = (\<lambda>(i, metric).
     case upstream_switch w row [channelLabel] i of
       Panic \<Rightarrow> Panic
     | Return r \<Rightarrow> finish_effect metric r)"

lemma finish_column_effect:
  "finish_column file metric r st =
     (case finish_effect metric r of Panic \<Rightarrow> Panic
      | Return e \<Rightarrow> Return (apply_effect file e st))"
  by (simp add: finish_column_def finish_effect_def apply_effect_def
      split: column_result.splits option.splits exec.splits)

lemma network_column_effect:
  "is_effect_of (network_column row) ''statsifc.html'' (network_effect row)"
  by (simp add: is_effect_of_def network_column_def network_effect_def apply_effect_def
      split: prod.splits option.splits exec.splits)

lemma downstream_column_effect:
  "is_effect_of (downstream_column w row channelLabel) ''cmconnectionstatus.html''
     (downstream_effect w row channelLabel)"
  by (simp add: is_effect_of_def downstream_column_def downstream_effect_def
      finish_column_effect split: prod.splits exec.splits)

lemma upstream_column_effect:
  "is_effect_of (upstream_column w row channelLabel) ''cmconnectionstatus.html''
     (upstream_effect w row channelLabel)"
  by (simp add: is_effect_of_def upstream_column_def upstream_effect_def
      finish_column_effect split: prod.splits exec.splits)

lemma agree_ranges: "agree s t \<Longrightarrow> agree (s\<lparr>ranges := Suc (ranges s)\<rparr>) (t\<lparr>ranges := Suc (ranges t)\<rparr>)"
  by (simp add: agree_def)

lemma agree_record_failure:
  "agree s t \<Longrightarrow> agree (record_failure file x s) (record_failure file x t)"
  by (simp add: agree_def)

lemma agree_exec_Return [simp]: "agree_exec (Return s) (Return t) \<longleftrightarrow> agree s t"
  by (simp add: agree_exec_def)

lemma agree_exec_Panic [simp]: "agree_exec Panic Panic"
  by (simp add: agree_exec_def)

lemma network_row_agree:
  assumes "agree s t"
  shows "agree_exec (network_row ord1 row s) (network_row ord2 row t)"
proof (cases "length row = 9")
  case False
  with assms show ?thesis by (simp add: network_row_def)
next
  case True
  from assms have "ranges s = ranges t" by (simp add: agree_def)
  have "agree_exec
      (for_each (network_column row) (shuffle (ord1 (ranges s)) networkMetrics)
         (s\<lparr>ranges := Suc (ranges s)\<rparr>))
      (for_each (network_column row) (shuffle (ord2 (ranges t)) networkMetrics)
         (t\<lparr>ranges := Suc (ranges t)\<rparr>))"
    by (rule for_each_effects_agree [OF network_column_effect])
       (simp_all add: mset_shuffle agree_ranges assms)
  with True show ?thesis by (simp add: network_row_def range_map_def)
qed

lemma channel_row_agree:
  assumes eff: "\<And>channelLabel. is_effect_of (column row channelLabel)
      ''cmconnectionstatus.html'' (eff channelLabel)"
    and "agree s t"
  shows "agree_exec (channel_row width m column ord1 row s)
           (channel_row width m column ord2 row t)"
proof (cases "length row = width")
  case False
  with assms(2) show ?thesis by (simp add: channel_row_def)
next
  case True
  show ?thesis
  proof (cases "index row 1")
    case Panic
    with True show ?thesis by (simp add: channel_row_def)
  next
    case (Return cell)
    obtain channel err where parsed: "ParseInt cell = (channel, err)"
      by (cases "ParseInt cell")
    show ?thesis
    proof (cases err)
      case (Some e)
      with True Return parsed assms(2) show ?thesis
        by (simp add: channel_row_def agree_record_failure)
    next
      case None
      have "agree_exec
          (for_each (column row (Sprintf_02d channel)) (shuffle (ord1 (ranges s)) m)
             (s\<lparr>ranges := Suc (ranges s)\<rparr>))
          (for_each (column row (Sprintf_02d channel)) (shuffle (ord2 (ranges t)) m)
             (t\<lparr>ranges := Suc (ranges t)\<rparr>))"
        by (rule for_each_effects_agree [OF eff])
           (simp_all add: mset_shuffle agree_ranges assms(2))
      with True Return parsed None show ?thesis
        by (simp add: channel_row_def range_map_def)
    qed
  qed
qed

lemma statsifc_page_agree:
  assumes "agree s t"
  shows "agree_exec (statsifc_page w ord1 s) (statsifc_page w ord2 t)"
proof -
  have rows: "agree_exec (for_each (network_row ord1) rows s) (for_each (network_row ord2) rows t)"
    for rows
    using network_row_agree assms by (rule for_each_agree)
  show ?thesis
    using assms rows
    by (simp add: statsifc_page_def agree_record_failure split: sum.splits exec.splits)
qed

lemma cmconnectionstatus_page_agree:
  assumes "agree s t"
  shows "agree_exec (cmconnectionstatus_page w ord1 s) (cmconnectionstatus_page w ord2 t)"
proof -
  have down: "agree_exec (for_each (downstream_row w ord1) rows s')
      (for_each (downstream_row w ord2) rows t')" if "agree s' t'" for rows s' t'
    unfolding downstream_row_def
    using channel_row_agree [of "downstream_column w", OF downstream_column_effect] that
    by (rule for_each_agree)
  have up: "agree_exec (for_each (upstream_row w ord1) rows s')
      (for_each (upstream_row w ord2) rows t')" if "agree s' t'" for rows s' t'
    unfolding upstream_row_def
    using channel_row_agree [of "upstream_column w", OF upstream_column_effect] that
    by (rule for_each_agree)
  show ?thesis
  proof (cases "fetch w ''cmconnectionstatus.html''")
    case (Inl err)
    with assms show ?thesis by (simp add: cmconnectionstatus_page_def)
  next
    case (Inr body)
    show ?thesis
    proof (cases "parseTables (html_Parse w body)")
      case Panic
      with Inr show ?thesis by (simp add: cmconnectionstatus_page_def)
    next
      case (Return parsed)
      show ?thesis
      proof (cases parsed)
        case (Inl err)
        with Inr Return assms show ?thesis
          by (simp add: cmconnectionstatus_page_def agree_record_failure)
      next
        case tables: (Inr tables)
        show ?thesis
        proof (cases "length tables < 3 \<or> length (tables ! 1) < 2 \<or> length (tables ! 2) < 2")
          case True
          with Inr Return tables assms show ?thesis
            by (simp add: cmconnectionstatus_page_def agree_record_failure)
        next
          case False
          from down [OF assms, of "drop 2 (tables ! 1)"]
          have "agree_exec
              (case for_each (downstream_row w ord1) (drop 2 (tables ! 1)) s of
                 Panic \<Rightarrow> Panic
               | Return s' \<Rightarrow> for_each (upstream_row w ord1) (drop 2 (tables ! 2)) s')
              (case for_each (downstream_row w ord2) (drop 2 (tables ! 1)) t of
                 Panic \<Rightarrow> Panic
               | Return t' \<Rightarrow> for_each (upstream_row w ord2) (drop 2 (tables ! 2)) t')"
            using up by (auto simp: agree_exec_def [of "for_each (downstream_row w ord1) _ _"]
                split: exec.splits)
          with Inr Return tables False show ?thesis
            by (simp add: cmconnectionstatus_page_def)
        qed
      qed
    qed
  qed
qed

lemma scrape_agree:
  "case scrape w ord1 st of
     Panic \<Rightarrow> scrape w ord2 st = Panic
   | Return (up1, st1) \<Rightarrow>
      (case scrape w ord2 st of
         Panic \<Rightarrow> False
       | Return (up2, st2) \<Rightarrow> up1 = up2 \<and> agree st1 st2)"
proof -
  let ?st = "st\<lparr>totalScrapes := Suc (totalScrapes st)\<rparr>"
  have first: "agree_exec (statsifc_page w ord1 ?st) (statsifc_page w ord2 ?st)"
    by (rule statsifc_page_agree) simp
  show ?thesis
  proof (cases "statsifc_page w ord1 ?st")
    case Panic
    with first show ?thesis by (simp add: scrape_def agree_exec_def)
  next
    case (Return s1)
    with first obtain t1 where t1: "statsifc_page w ord2 ?st = Return t1" and "agree s1 t1"
      by (cases "statsifc_page w ord2 ?st") (auto simp: agree_exec_def)
    from cmconnectionstatus_page_agree [OF this(2), of w ord1 ord2] Return t1
    show ?thesis
      by (auto simp: scrape_def agree_exec_def split: exec.splits)
  qed
qed

subsection \<open>The metrics that a page sends\<close>

definition extends :: "(Metric \<Rightarrow> bool) \<Rightarrow> state \<Rightarrow> state \<Rightarrow> bool" where
  "extends P s s' \<longleftrightarrow> (\<exists>ms. ch s' = ch s @ ms \<and> list_all P ms)"

lemma extends_refl [simp]: "extends P s s"
  by (simp add: extends_def)

lemma extends_trans: "extends P s s' \<Longrightarrow> extends P s' s'' \<Longrightarrow> extends P s s''"
  by (auto simp: extends_def)

lemma extends_mono: "extends P s s' \<Longrightarrow> (\<And>m. P m \<Longrightarrow> Q m) \<Longrightarrow> extends Q s s'"
  by (auto simp: extends_def list_all_iff)

lemma extends_same_ch: "ch s' = ch s \<Longrightarrow> extends P s s'"
  by (simp add: extends_def)

lemma for_each_extends:
  assumes "\<And>x s s'. x \<in> set xs \<Longrightarrow> body x s = Return s' \<Longrightarrow> extends P s s'"
  shows "for_each body xs st = Return st' \<Longrightarrow> extends P st st'"
  using assms
proof (induction xs arbitrary: st)
  case Nil
  then show ?case by simp
next
  case (Cons x xs)
  from Cons.prems(1) obtain s where s: "body x st = Return s"
    and rest: "for_each body xs s = Return st'"
    by (cases "body x st") auto
  from Cons.prems(2) [of x st s] s have "extends P st s" by simp
  moreover have "extends P s st'"
    using rest Cons.prems(2) by (intro Cons.IH) auto
  ultimately show ?case by (rule extends_trans)
qed

lemma for_each_effects_extends:
  assumes "is_effect_of body file eff"
    and "\<And>x m. x \<in> set xs \<Longrightarrow> m \<in> set (sent_by (eff x)) \<Longrightarrow> P m"
    and "for_each body xs st = Return st'"
  shows "extends P st st'"
  using for_each_effects [OF assms(1) assms(3)] assms(2)
  by (auto simp: extends_def list_all_iff)

definition from_map :: "metrics \<Rightarrow> Metric \<Rightarrow> bool" where
  "from_map M m \<longleftrightarrow> (\<exists>i d v ls. (i, d) \<in> set M \<and> m = ConstMetric d CounterValue v ls)"

definition labelled :: "metrics \<Rightarrow> string \<Rightarrow> Metric \<Rightarrow> bool" where
  "labelled M channelLabel m \<longleftrightarrow>
     (\<exists>i d v ls. (i, d) \<in> set M \<and> m = ConstMetric d CounterValue v (channelLabel # ls))"

lemma labelled_from_map: "labelled M channelLabel m \<Longrightarrow> from_map M m"
  by (auto simp: labelled_def from_map_def)

lemma sent_by_network_effect:
  "m \<in> set (sent_by (network_effect row (i, metric))) \<Longrightarrow>
   \<exists>v ls. m = ConstMetric metric CounterValue v ls"
  by (auto simp: sent_by_def network_effect_def MustNewConstMetric_def
      split: exec.splits effect.splits prod.splits option.splits if_splits)

lemma sent_by_finish_effect:
  "m \<in> set (sent_by (finish_effect metric r)) \<Longrightarrow>
   \<exists>v ls. r = Computed v None ls \<and> m = ConstMetric metric CounterValue v ls"
  by (auto simp: sent_by_def finish_effect_def MustNewConstMetric_def
      split: exec.splits effect.splits column_result.splits option.splits if_splits)

lemma case_labels:
  "int_case cell (l # ls) = Computed v err ls' \<Longrightarrow> \<exists>ls''. ls' = l # ls''"
  "equals_case expected cell (l # ls) = Computed v err ls' \<Longrightarrow> \<exists>ls''. ls' = l # ls''"
  "label_case cell (l # ls) = Computed v err ls' \<Longrightarrow> \<exists>ls''. ls' = l # ls''"
  "unit_int_case cell (l # ls) = Computed v err ls' \<Longrightarrow> \<exists>ls''. ls' = l # ls''"
  "unit_float_case w unit cell (l # ls) = Computed v err ls' \<Longrightarrow> \<exists>ls''. ls' = l # ls''"
  by (auto simp: int_case_def equals_case_def label_case_def unit_int_case_def
      unit_float_case_def split: prod.splits list.splits if_splits)

lemma downstream_switch_labels:
  "downstream_switch w row [channelLabel] i = Return (Computed v err ls) \<Longrightarrow>
   \<exists>ls'. ls = channelLabel # ls'"
  by (auto simp: downstream_switch_def dest: case_labels split: if_splits exec.splits)

lemma upstream_switch_labels:
  "upstream_switch w row [channelLabel] i = Return (Computed v err ls) \<Longrightarrow>
   \<exists>ls'. ls = channelLabel # ls'"
  by (auto simp: upstream_switch_def dest: case_labels split: if_splits exec.splits)

lemma sent_by_downstream_effect:
  assumes "m \<in> set (sent_by (downstream_effect w row channelLabel (i, metric)))"
  shows "\<exists>v ls. m = ConstMetric metric CounterValue v (channelLabel # ls)"
proof -
  from assms obtain r where r: "downstream_switch w row [channelLabel] i = Return r"
    and m: "m \<in> set (sent_by (finish_effect metric r))"
    by (cases "downstream_switch w row [channelLabel] i")
       (auto simp: downstream_effect_def sent_by_def)
  from sent_by_finish_effect [OF m] downstream_switch_labels [of w row channelLabel i] r
  show ?thesis by auto
qed

lemma sent_by_upstream_effect:
  assumes "m \<in> set (sent_by (upstream_effect w row channelLabel (i, metric)))"
  shows "\<exists>v ls. m = ConstMetric metric CounterValue v (channelLabel # ls)"
proof -
  from assms obtain r where r: "upstream_switch w row [channelLabel] i = Return r"
    and m: "m \<in> set (sent_by (finish_effect metric r))"
    by (cases "upstream_switch w row [channelLabel] i")
       (auto simp: upstream_effect_def sent_by_def)
  from sent_by_finish_effect [OF m] upstream_switch_labels [of w row channelLabel i] r
  show ?thesis by auto
qed

lemma set_shuffle: "set (shuffle ks xs) = set xs"
  using mset_shuffle [of ks xs] by (rule mset_eq_setD)

lemma extends_ranges: "extends P (s\<lparr>ranges := k\<rparr>) s' \<Longrightarrow> extends P s s'"
  by (simp add: extends_def)

lemma network_row_extends:
  assumes "network_row ord row st = Return st'"
  shows "extends (from_map networkMetrics) st st'"
proof (cases "length row = 9")
  case False
  with assms show ?thesis by (simp add: network_row_def)
next
  case True
  with assms have run: "for_each (network_column row)
      (shuffle (ord (ranges st)) networkMetrics) (st\<lparr>ranges := Suc (ranges st)\<rparr>) = Return st'"
    by (simp add: network_row_def range_map_def)
  have "extends (from_map networkMetrics) (st\<lparr>ranges := Suc (ranges st)\<rparr>) st'"
    using network_column_effect _ run
  proof (rule for_each_effects_extends)
    fix x m
    assume x: "x \<in> set (shuffle (ord (ranges st)) networkMetrics)"
      and m: "m \<in> set (sent_by (network_effect row x))"
    obtain i d where xd: "x = (i, d)" by (cases x)
    from x have "(i, d) \<in> set networkMetrics" by (simp add: xd set_shuffle)
    moreover from m sent_by_network_effect [of m row i d]
    obtain v ls where "m = ConstMetric d CounterValue v ls" by (auto simp: xd)
    ultimately show "from_map networkMetrics m" by (auto simp: from_map_def)
  qed
  then show ?thesis by (rule extends_ranges)
qed

lemma channel_row_labelled:
  assumes eff: "\<And>channelLabel. is_effect_of (column row channelLabel)
      ''cmconnectionstatus.html'' (eff channelLabel)"
    and sent: "\<And>channelLabel i d m. m \<in> set (sent_by (eff channelLabel (i, d))) \<Longrightarrow>
      \<exists>v ls. m = ConstMetric d CounterValue v (channelLabel # ls)"
    and run: "channel_row width M column ord row st = Return st'"
    and width: "length row = width"
    and key: "index row 1 = Return cell" "ParseInt cell = (channel, None)"
  shows "extends (labelled M (Sprintf_02d channel)) st st'"
proof -
  from run width key have run': "for_each (column row (Sprintf_02d channel))
      (shuffle (ord (ranges st)) M) (st\<lparr>ranges := Suc (ranges st)\<rparr>) = Return st'"
    by (simp add: channel_row_def range_map_def)
  have "extends (labelled M (Sprintf_02d channel)) (st\<lparr>ranges := Suc (ranges st)\<rparr>) st'"
    using eff _ run'
  proof (rule for_each_effects_extends)
    fix x m
    assume x: "x \<in> set (shuffle (ord (ranges st)) M)"
      and m: "m \<in> set (sent_by (eff (Sprintf_02d channel) x))"
    obtain i d where xd: "x = (i, d)" by (cases x)
    from x have "(i, d) \<in> set M" by (simp add: xd set_shuffle)
    moreover from m sent [of m "Sprintf_02d channel" i d]
    obtain v ls where "m = ConstMetric d CounterValue v (Sprintf_02d channel # ls)"
      by (auto simp: xd)
    ultimately show "labelled M (Sprintf_02d channel) m" by (auto simp: labelled_def)
  qed
  then show ?thesis by (rule extends_ranges)
qed

lemma channel_row_extends:
  assumes eff: "\<And>channelLabel. is_effect_of (column row channelLabel)
      ''cmconnectionstatus.html'' (eff channelLabel)"
    and sent: "\<And>channelLabel i d m. m \<in> set (sent_by (eff channelLabel (i, d))) \<Longrightarrow>
      \<exists>v ls. m = ConstMetric d CounterValue v (channelLabel # ls)"
    and run: "channel_row width M column ord row st = Return st'"
  shows "extends (from_map M) st st'"
proof (cases "length row = width")
  case False
  with run show ?thesis by (simp add: channel_row_def)
next
  case True
  show ?thesis
  proof (cases "index row 1")
    case Panic
    with True run show ?thesis by (simp add: channel_row_def)
  next
    case (Return cell)
    obtain channel err where parsed: "ParseInt cell = (channel, err)"
      by (cases "ParseInt cell")
    show ?thesis
    proof (cases err)
      case (Some e)
      with True Return parsed run show ?thesis
        by (auto simp: channel_row_def intro: extends_same_ch)
    next
      case None
      have "extends (labelled M (Sprintf_02d channel)) st st'"
      proof (rule channel_row_labelled [where eff = eff])
        show "is_effect_of (column row l) ''cmconnectionstatus.html'' (eff l)" for l
          by (rule eff)
        show "\<exists>v ls. m = ConstMetric d CounterValue v (l # ls)"
          if "m \<in> set (sent_by (eff l (i, d)))" for l i d m
          using that by (rule sent)
        show "channel_row width M column ord row st = Return st'" by (rule run)
        show "length row = width" by (rule True)
        show "index row 1 = Return cell" by (rule Return)
        show "ParseInt cell = (channel, None)" using parsed None by simp
      qed
      then show ?thesis by (rule extends_mono) (rule labelled_from_map)
    qed
  qed
qed

lemma downstream_row_extends:
  "downstream_row w ord row st = Return st' \<Longrightarrow> extends (from_map downstreamChannelMetrics) st st'"
  unfolding downstream_row_def
  using downstream_column_effect sent_by_downstream_effect by (rule channel_row_extends)

lemma upstream_row_extends:
  "upstream_row w ord row st = Return st' \<Longrightarrow> extends (from_map upstreamChannelMetrics) st st'"
  unfolding upstream_row_def
  using upstream_column_effect sent_by_upstream_effect by (rule channel_row_extends)

lemma statsifc_page_extends:
  assumes "statsifc_page w ord st = Return st'"
  shows "extends (from_map networkMetrics) st st'"
proof -
  have "extends (from_map networkMetrics) st st'"
    if "for_each (network_row ord) rows st = Return st'" for rows
    using _ that by (rule for_each_extends) (rule network_row_extends)
  with assms show ?thesis
    by (auto simp: statsifc_page_def intro: extends_same_ch
        split: sum.splits exec.splits if_splits)
qed

definition channel_metric :: "Metric \<Rightarrow> bool" where
  "channel_metric m \<longleftrightarrow> from_map downstreamChannelMetrics m \<or> from_map upstreamChannelMetrics m"

lemma cmconnectionstatus_page_extends:
  assumes "cmconnectionstatus_page w ord st = Return st'"
  shows "extends channel_metric st st'"
proof -
  have down: "extends channel_metric s s'"
    if "for_each (downstream_row w ord) rows s = Return s'" for rows s s'
    using _ that
    by (rule for_each_extends)
       (auto simp: channel_metric_def dest!: downstream_row_extends intro: extends_mono)
  have up: "extends channel_metric s s'"
    if "for_each (upstream_row w ord) rows s = Return s'" for rows s s'
    using _ that
    by (rule for_each_extends)
       (auto simp: channel_metric_def dest!: upstream_row_extends intro: extends_mono)
  from assms show ?thesis
    by (auto simp: cmconnectionstatus_page_def intro: extends_same_ch extends_trans down up
        split: sum.splits exec.splits if_splits)
qed

definition is_up :: "Metric \<Rightarrow> bool" where
  "is_up m \<longleftrightarrow> (case m of ConstMetric d t v ls \<Rightarrow> fqName d = ''tc4400_up'' | CollectedFrom n \<Rightarrow> False)"

lemma family_network: "(i, d) \<in> set networkMetrics \<Longrightarrow> take 14 (fqName d) = ''tc4400_network''"
  by (auto simp: networkMetrics_def NewDesc_def BuildFQName_def namespace_def)

lemma family_downstream:
  "(i, d) \<in> set downstreamChannelMetrics \<Longrightarrow> take 14 (fqName d) = ''tc4400_downstr''"
  by (auto simp: downstreamChannelMetrics_def newChannelMetric_def NewDesc_def BuildFQName_def
      namespace_def)

lemma family_upstream:
  "(i, d) \<in> set upstreamChannelMetrics \<Longrightarrow> take 14 (fqName d) = ''tc4400_upstrea''"
  by (auto simp: upstreamChannelMetrics_def newChannelMetric_def NewDesc_def BuildFQName_def
      namespace_def)

lemma network_not_up: "from_map networkMetrics m \<Longrightarrow> \<not> is_up m"
  by (auto simp: from_map_def is_up_def dest!: family_network)

lemma channel_not_up: "channel_metric m \<Longrightarrow> \<not> is_up m"
  by (auto simp: channel_metric_def from_map_def is_up_def
      dest!: family_downstream family_upstream)

lemma channel_not_network: "channel_metric m \<Longrightarrow> \<not> from_map networkMetrics m"
  by (auto simp: channel_metric_def from_map_def
      dest!: family_downstream family_upstream family_network)

lemma up_metric_is_up:
  "MustNewConstMetric targetUpMetric GaugeValue up [] = Return (ConstMetric targetUpMetric GaugeValue up [])"
  "is_up (ConstMetric targetUpMetric GaugeValue up [])"
  "\<not> from_map M (ConstMetric targetUpMetric GaugeValue up [])"
  "\<not> channel_metric (ConstMetric targetUpMetric GaugeValue up [])"
  by (simp_all add: MustNewConstMetric_def targetUpMetric_def NewDesc_def is_up_def
      BuildFQName_def namespace_def from_map_def channel_metric_def)

lemma collected_not_from_map [simp]:
  "\<not> from_map M (CollectedFrom n)" "\<not> channel_metric (CollectedFrom n)"
  "\<not> is_up (CollectedFrom n)"
  by (simp_all add: from_map_def channel_metric_def is_up_def)

lemma scrape_extends:
  assumes "scrape w ord st = Return (up, st')"
  shows "up = Float64_of_int 1"
    and "extends (\<lambda>m. from_map networkMetrics m \<or> channel_metric m) st st'"
proof -
  let ?st = "st\<lparr>totalScrapes := Suc (totalScrapes st)\<rparr>"
  from assms obtain st1 where p1: "statsifc_page w ord ?st = Return st1"
    and p2: "cmconnectionstatus_page w ord st1 = Return st'" and up: "up = Float64_of_int 1"
    by (auto simp: scrape_def split: exec.splits)
  from up show "up = Float64_of_int 1" .
  have "extends (\<lambda>m. from_map networkMetrics m \<or> channel_metric m) ?st st1"
    using statsifc_page_extends [OF p1] by (rule extends_mono) simp
  moreover have "extends (\<lambda>m. from_map networkMetrics m \<or> channel_metric m) st1 st'"
    using cmconnectionstatus_page_extends [OF p2] by (rule extends_mono) simp
  ultimately have "extends (\<lambda>m. from_map networkMetrics m \<or> channel_metric m) ?st st'"
    by (rule extends_trans)
  then show "extends (\<lambda>m. from_map networkMetrics m \<or> channel_metric m) st st'"
    by (simp add: extends_def)
qed

lemma filter_none: "list_all (\<lambda>m. \<not> P m) ms \<Longrightarrow> filter P ms = []"
  by (induction ms) auto

lemma Collect_up_once:
  assumes "Collect w ord st = Return st'"
  shows "\<exists>ms. ch st' = ch st @ ms
    \<and> filter is_up ms = [ConstMetric targetUpMetric GaugeValue (Float64_of_int 1) []]"
proof -
  from assms obtain up st2 where s: "scrape w ord st = Return (up, st2)"
    by (auto simp: Collect_def split: exec.splits)
  from scrape_extends [OF s] obtain ms where up: "up = Float64_of_int 1"
    and ms: "ch st2 = ch st @ ms"
    and fam: "list_all (\<lambda>m. from_map networkMetrics m \<or> channel_metric m) ms"
    by (auto simp: extends_def)
  from fam have "list_all (\<lambda>m. \<not> is_up m) ms"
    by (auto simp: list_all_iff dest: network_not_up channel_not_up)
  then have none: "filter is_up ms = []" by (rule filter_none)
  from assms s up ms have "ch st' = ch st @ ms
      @ [ConstMetric targetUpMetric GaugeValue (Float64_of_int 1) [],
         CollectedFrom ''tc4400_exporter_scrapes_total'',
         CollectedFrom ''tc4400_exporter_parse_errors_total'',
         CollectedFrom ''tc4400_exporter_client_requests_total'',
         CollectedFrom ''tc4400_exporter_client_request_duration_seconds'']"
    by (auto simp: Collect_def up_metric_is_up)
  with none show ?thesis by (simp add: up_metric_is_up)
qed

lemma Collect_without_statsifc:
  assumes "fetch w ''statsifc.html'' = Inl err"
  shows "scrape w ord st =
      (case cmconnectionstatus_page w ord (st\<lparr>totalScrapes := Suc (totalScrapes st)\<rparr>) of
         Panic \<Rightarrow> Panic
       | Return st2 \<Rightarrow> Return (Float64_of_int 1, st2))"
    and "Collect w ord st = Return st' \<Longrightarrow>
      \<exists>ms. ch st' = ch st @ ms \<and> list_all (\<lambda>m. \<not> from_map networkMetrics m) ms"
proof -
  let ?st = "st\<lparr>totalScrapes := Suc (totalScrapes st)\<rparr>"
  from assms show eq: "scrape w ord st =
      (case cmconnectionstatus_page w ord ?st of
         Panic \<Rightarrow> Panic
       | Return st2 \<Rightarrow> Return (Float64_of_int 1, st2))"
    by (simp add: scrape_def statsifc_page_def)
  assume run: "Collect w ord st = Return st'"
  then obtain st2 where p2: "cmconnectionstatus_page w ord ?st = Return st2"
    and st': "ch st' = ch st2
      @ [ConstMetric targetUpMetric GaugeValue (Float64_of_int 1) [],
         CollectedFrom ''tc4400_exporter_scrapes_total'',
         CollectedFrom ''tc4400_exporter_parse_errors_total'',
         CollectedFrom ''tc4400_exporter_client_requests_total'',
         CollectedFrom ''tc4400_exporter_client_request_duration_seconds'']"
    by (auto simp: Collect_def eq up_metric_is_up split: exec.splits)
  from cmconnectionstatus_page_extends [OF p2] obtain ms where
    "ch st2 = ch st @ ms" "list_all channel_metric ms"
    by (auto simp: extends_def)
  with st' show "\<exists>ms. ch st' = ch st @ ms \<and> list_all (\<lambda>m. \<not> from_map networkMetrics m) ms"
    by (auto simp: list_all_iff up_metric_is_up dest: channel_not_network)
qed

lemma Collect_without_cmconnectionstatus:
  assumes "fetch w ''cmconnectionstatus.html'' = Inl err"
  shows "scrape w ord st =
      (case statsifc_page w ord (st\<lparr>totalScrapes := Suc (totalScrapes st)\<rparr>) of
         Panic \<Rightarrow> Panic
       | Return st1 \<Rightarrow> Return (Float64_of_int 1, st1))"
    and "Collect w ord st = Return st' \<Longrightarrow>
      \<exists>ms. ch st' = ch st @ ms \<and> list_all (\<lambda>m. \<not> channel_metric m) ms"
proof -
  let ?st = "st\<lparr>totalScrapes := Suc (totalScrapes st)\<rparr>"
  from assms show eq: "scrape w ord st =
      (case statsifc_page w ord ?st of
         Panic \<Rightarrow> Panic
       | Return st1 \<Rightarrow> Return (Float64_of_int 1, st1))"
    by (simp add: scrape_def cmconnectionstatus_page_def split: exec.splits)
  assume run: "Collect w ord st = Return st'"
  then obtain st1 where p1: "statsifc_page w ord ?st = Return st1"
    and st': "ch st' = ch st1
      @ [ConstMetric targetUpMetric GaugeValue (Float64_of_int 1) [],
         CollectedFrom ''tc4400_exporter_scrapes_total'',
         CollectedFrom ''tc4400_exporter_parse_errors_total'',
         CollectedFrom ''tc4400_exporter_client_requests_total'',
         CollectedFrom ''tc4400_exporter_client_request_duration_seconds'']"
    by (auto simp: Collect_def eq up_metric_is_up split: exec.splits)
  from statsifc_page_extends [OF p1] obtain ms where
    "ch st1 = ch st @ ms" "list_all (from_map networkMetrics) ms"
    by (auto simp: extends_def)
  with st' show "\<exists>ms. ch st' = ch st @ ms \<and> list_all (\<lambda>m. \<not> channel_metric m) ms"
    by (auto simp: list_all_iff up_metric_is_up dest: channel_not_network)
qed

subsection \<open>The decoder does not panic\<close>

lemma network_effect_no_panic:
  "length row = 9 \<Longrightarrow> c \<in> set networkMetrics \<Longrightarrow> network_effect row c \<noteq> Panic"
  by (auto simp: networkMetrics_def network_effect_def index_def MustNewConstMetric_def
      NewDesc_def split: prod.splits option.splits)

lemma finish_effect_no_panic:
  "r = Continue \<or> (\<exists>v err ls. r = Computed v err ls \<and> length ls = length (variableLabels metric))
   \<Longrightarrow> finish_effect metric r \<noteq> Panic"
  by (auto simp: finish_effect_def MustNewConstMetric_def split: option.splits)

lemma case_label_count:
  "\<exists>v err. int_case cell ls = Computed v err ls"
  "\<exists>v err. equals_case expected cell ls = Computed v err ls"
  "\<exists>v err. label_case cell ls = Computed v err (ls @ [cell])"
  "unit_int_case cell ls = Continue \<or> (\<exists>v err. unit_int_case cell ls = Computed v err ls)"
  "unit_float_case w unit cell ls = Continue
     \<or> (\<exists>v err. unit_float_case w unit cell ls = Computed v err ls)"
  by (auto simp: int_case_def equals_case_def label_case_def unit_int_case_def
      unit_float_case_def split: prod.splits list.splits)

lemma index_Return: "0 \<le> i \<Longrightarrow> i < int (length xs) \<Longrightarrow> index xs i = Return (xs ! nat i)"
  by (simp add: index_def)

lemma case_shapes:
  "int_case cell ls = Computed v err ls' \<Longrightarrow> length ls' = length ls"
  "equals_case expected cell ls = Computed v err ls' \<Longrightarrow> length ls' = length ls"
  "label_case cell ls = Computed v err ls' \<Longrightarrow> length ls' = Suc (length ls)"
  "unit_int_case cell ls = Computed v err ls' \<Longrightarrow> length ls' = length ls"
  "unit_float_case w unit cell ls = Computed v err ls' \<Longrightarrow> length ls' = length ls"
  by (auto simp: int_case_def equals_case_def label_case_def unit_int_case_def
      unit_float_case_def split: prod.splits list.splits if_splits)

lemma downstream_switch_no_panic:
  assumes "length row = 13" and "2 \<le> i" and "i \<le> 12"
  shows "downstream_switch w row ls i \<noteq> Panic"
proof -
  have idx: "index row k = Return (row ! nat k)" if "0 \<le> k" "k \<le> 12" for k
    using that assms(1) by (simp add: index_def)
  show ?thesis by (simp add: downstream_switch_def idx)
qed

lemma downstream_switch_shape:
  "downstream_switch w row ls i = Return (Computed v err ls') \<Longrightarrow>
   length ls' = (if i = 3 \<or> i = 9 then Suc (length ls) else length ls)"
  by (auto simp: downstream_switch_def split: if_splits exec.splits dest: case_shapes)

lemma upstream_switch_no_panic:
  assumes "length row = 9" and "2 \<le> i" and "i \<le> 8"
  shows "upstream_switch w row ls i \<noteq> Panic"
proof -
  have idx: "index row k = Return (row ! nat k)" if "0 \<le> k" "k \<le> 8" for k
    using that assms(1) by (simp add: index_def)
  show ?thesis by (simp add: upstream_switch_def idx)
qed

lemma upstream_switch_shape:
  "upstream_switch w row ls i = Return (Computed v err ls') \<Longrightarrow>
   length ls' = (if i = 3 \<or> i = 8 then Suc (length ls) else length ls)"
  by (auto simp: upstream_switch_def split: if_splits exec.splits dest: case_shapes)

lemma downstream_effect_entry:
  assumes "length row = 13" and "2 \<le> i" and "i \<le> 12"
    and "length (variableLabels d) = (if i = 3 \<or> i = 9 then 2 else 1)"
  shows "downstream_effect w row channelLabel (i, d) \<noteq> Panic"
proof (cases "downstream_switch w row [channelLabel] i")
  case Panic
  with downstream_switch_no_panic [OF assms(1-3), of w "[channelLabel]"] show ?thesis
    by simp
next
  case (Return r)
  have "finish_effect d r \<noteq> Panic"
  proof (cases r)
    case Continue
    then show ?thesis by (simp add: finish_effect_def)
  next
    case (Computed v err ls')
    with Return downstream_switch_shape [of w row "[channelLabel]" i v err ls'] assms(4)
    show ?thesis by (intro finish_effect_no_panic) (auto split: if_splits)
  qed
  with Return show ?thesis by (simp add: downstream_effect_def)
qed

lemma upstream_effect_entry:
  assumes "length row = 9" and "2 \<le> i" and "i \<le> 8"
    and "length (variableLabels d) = (if i = 3 \<or> i = 8 then 2 else 1)"
  shows "upstream_effect w row channelLabel (i, d) \<noteq> Panic"
proof (cases "upstream_switch w row [channelLabel] i")
  case Panic
  with upstream_switch_no_panic [OF assms(1-3), of w "[channelLabel]"] show ?thesis
    by simp
next
  case (Return r)
  have "finish_effect d r \<noteq> Panic"
  proof (cases r)
    case Continue
    then show ?thesis by (simp add: finish_effect_def)
  next
    case (Computed v err ls')
    with Return upstream_switch_shape [of w row "[channelLabel]" i v err ls'] assms(4)
    show ?thesis by (intro finish_effect_no_panic) (auto split: if_splits)
  qed
  with Return show ?thesis by (simp add: upstream_effect_def)
qed

lemma downstream_effect_no_panic:
  assumes "length row = 13" and "c \<in> set downstreamChannelMetrics"
  shows "downstream_effect w row channelLabel c \<noteq> Panic"
proof -
  obtain i d where c: "c = (i, d)" by (cases c)
  from assms(2) have "2 \<le> i \<and> i \<le> 12
      \<and> length (variableLabels d) = (if i = 3 \<or> i = 9 then 2 else 1)"
    unfolding c downstreamChannelMetrics_def
    by (auto simp: newChannelMetric_def NewDesc_def channelLabelNames_def)
  with assms(1) show ?thesis unfolding c by (intro downstream_effect_entry) simp_all
qed

lemma upstream_effect_no_panic:
  assumes "length row = 9" and "c \<in> set upstreamChannelMetrics"
  shows "upstream_effect w row channelLabel c \<noteq> Panic"
proof -
  obtain i d where c: "c = (i, d)" by (cases c)
  from assms(2) have "2 \<le> i \<and> i \<le> 8
      \<and> length (variableLabels d) = (if i = 3 \<or> i = 8 then 2 else 1)"
    unfolding c upstreamChannelMetrics_def
    by (auto simp: newChannelMetric_def NewDesc_def channelLabelNames_def)
  with assms(1) show ?thesis unfolding c by (intro upstream_effect_entry) simp_all
qed

lemma for_each_no_panic:
  "(\<And>x s. x \<in> set xs \<Longrightarrow> body x s \<noteq> Panic) \<Longrightarrow> for_each body xs st \<noteq> Panic"
proof (induction xs arbitrary: st)
  case Nil
  then show ?case by simp
next
  case (Cons x xs)
  from Cons.prems [of x st] obtain s where "body x st = Return s"
    by (cases "body x st") auto
  with Cons.IH [of s] Cons.prems show ?case by simp
qed

lemma network_row_no_panic: "network_row ord row st \<noteq> Panic"
  using for_each_effects_Panic [OF network_column_effect,
      of row "shuffle (ord (ranges st)) networkMetrics" "st\<lparr>ranges := Suc (ranges st)\<rparr>"]
    network_effect_no_panic [of row]
  by (auto simp: network_row_def range_map_def set_shuffle)

lemma downstream_row_no_panic: "downstream_row w ord row st \<noteq> Panic"
proof (cases "length row = 13")
  case False
  then show ?thesis by (simp add: downstream_row_def channel_row_def)
next
  case True
  then have idx: "index row 1 = Return (row ! 1)" by (simp add: index_def)
  have "for_each (downstream_column w row l) (shuffle ks downstreamChannelMetrics) s \<noteq> Panic"
    for l ks s
    using for_each_effects_Panic [OF downstream_column_effect,
        of w row l "shuffle ks downstreamChannelMetrics" s]
      downstream_effect_no_panic [OF True]
    by (auto simp: set_shuffle)
  with True idx show ?thesis
    by (simp add: downstream_row_def channel_row_def range_map_def
        split: prod.splits option.splits)
qed

lemma upstream_row_no_panic: "upstream_row w ord row st \<noteq> Panic"
proof (cases "length row = 9")
  case False
  then show ?thesis by (simp add: upstream_row_def channel_row_def)
next
  case True
  then have idx: "index row 1 = Return (row ! 1)" by (simp add: index_def)
  have "for_each (upstream_column w row l) (shuffle ks upstreamChannelMetrics) s \<noteq> Panic"
    for l ks s
    using for_each_effects_Panic [OF upstream_column_effect,
        of w row l "shuffle ks upstreamChannelMetrics" s]
      upstream_effect_no_panic [OF True]
    by (auto simp: set_shuffle)
  with True idx show ?thesis
    by (simp add: upstream_row_def channel_row_def range_map_def
        split: prod.splits option.splits)
qed

definition documents_have_children :: "'r world \<Rightarrow> bool" where
  "documents_have_children w \<longleftrightarrow>
     (\<forall>body d. html_Parse w body = Inr d \<longrightarrow> children d \<noteq> [] \<and> Type d = DocumentNode)"

lemma parseTables_html_Parse:
  assumes "documents_have_children w"
  shows "parseTables (html_Parse w body) \<noteq> Panic"
proof (cases "html_Parse w body")
  case (Inl err)
  then show ?thesis by (simp add: parseTables_def)
next
  case (Inr d)
  with assms have "children d \<noteq> []" and "\<not> is_table (Ptr d [] None)"
    by (auto simp: documents_have_children_def is_table_def)
  from parseTables_no_panic [OF this] Inr show ?thesis by auto
qed

lemma scrape_no_panic:
  assumes "documents_have_children w"
  shows "scrape w ord st \<noteq> Panic"
proof -
  have p1: "statsifc_page w ord s \<noteq> Panic" for s
    using parseTables_html_Parse [OF assms]
      for_each_no_panic [of _ "network_row ord", OF network_row_no_panic]
    by (auto simp: statsifc_page_def split: sum.splits exec.splits)
  have p2: "cmconnectionstatus_page w ord s \<noteq> Panic" for s
    using parseTables_html_Parse [OF assms]
      for_each_no_panic [of _ "downstream_row w ord", OF downstream_row_no_panic]
      for_each_no_panic [of _ "upstream_row w ord", OF upstream_row_no_panic]
    by (auto simp: cmconnectionstatus_page_def split: sum.splits exec.splits)
  from p1 p2 show ?thesis
    by (auto simp: scrape_def split: exec.splits)
qed

lemma Collect_no_panic:
  assumes "documents_have_children w"
  shows "\<exists>st'. Collect w ord st = Return st'"
  using scrape_no_panic [OF assms, of ord st]
  by (cases "scrape w ord st") (auto simp: Collect_def up_metric_is_up)

subsection \<open>Formatting and units\<close>

lemma shuffle_complete: "mset ys = mset xs \<Longrightarrow> \<exists>ks. shuffle ks xs = ys"
proof (induction ys arbitrary: xs)
  case Nil
  then have "shuffle [] xs = []" by simp
  then show ?case by blast
next
  case (Cons y ys)
  from Cons.prems have "y \<in> set xs" by (metis list.set_intros(1) mset_eq_setD)
  then obtain i where i: "i < length xs" and y: "xs ! i = y"
    by (auto simp: in_set_conv_nth)
  let ?rest = "take i xs @ drop (Suc i) xs"
  from i have "xs = take i xs @ xs ! i # drop (Suc i) xs" by (rule id_take_nth_drop)
  then have "mset xs = add_mset y (mset ?rest)"
    using y by (metis mset.simps(2) mset_append union_mset_add_mset_right)
  with Cons.prems have "mset ys = mset ?rest" by simp
  from Cons.IH [OF this] obtain ks where "shuffle ks ?rest = ys" by blast
  with i y have "shuffle (i # ks) xs = y # ys" by (auto simp: Let_def)
  then show ?case by blast
qed

lemma decimal_digit: "0 \<le> n \<Longrightarrow> n < 10 \<Longrightarrow> decimal n = [char_of (48 + n)]"
  by (simp add: decimal.simps)

lemma decimal_nonempty: "decimal n \<noteq> []"
  by (subst decimal.simps) simp

lemma decimal_two: "10 \<le> n \<Longrightarrow> n < 100 \<Longrightarrow>
    decimal n = [char_of (48 + n div 10), char_of (48 + n mod 10)]"
  by (subst decimal.simps) (simp add: decimal_digit)

lemma decimal_long: "100 \<le> n \<Longrightarrow> 2 < length (decimal n)"
proof -
  assume "100 \<le> n"
  then have "decimal n = decimal (n div 10 div 10) @ [char_of (48 + n div 10 mod 10)]
      @ [char_of (48 + n mod 10)]"
    by (subst decimal.simps, subst decimal.simps) simp
  with decimal_nonempty [of "n div 10 div 10"] show ?thesis
    by (cases "decimal (n div 10 div 10)") auto
qed

lemma char_of_48: "char_of (48 :: int) = CHR ''0''"
  by code_simp

lemma Sprintf_02d_two_digits:
  "0 \<le> channel \<Longrightarrow> channel < 100 \<Longrightarrow>
   Sprintf_02d channel = [char_of (48 + channel div 10), char_of (48 + channel mod 10)]"
  by (cases "channel < 10")
     (simp_all add: Sprintf_02d_def decimal_digit decimal_two char_of_48)

lemma Split_unit:
  "Split cell (CHR '' '') = [p0, unit] \<Longrightarrow> unit \<noteq> ''Hz'' \<Longrightarrow> unit \<noteq> ''kHz'' \<Longrightarrow>
   unit_int_case cell ls = Continue"
  by (simp add: unit_int_case_def split: prod.splits)

lemma unit_int_column:
  assumes "i = 5 \<or> i = 6" and "index row i = Return cell"
  shows "downstream_switch w row ls i = Return (unit_int_case cell ls)"
    and "upstream_switch w row ls i = Return (unit_int_case cell ls)"
  using assms by (auto simp: downstream_switch_def upstream_switch_def)

lemma finish_column_Continue: "finish_column file metric Continue st = Return st"
  by (simp add: finish_column_def)

lemma finish_column_Computed:
  "length ls = length (variableLabels metric) \<Longrightarrow>
   finish_column file metric (Computed v None ls) st
     = Return (send (ConstMetric metric CounterValue v ls) st)"
  by (simp add: finish_column_def MustNewConstMetric_def)

lemma int64_mul_exact: "- (2 ^ 63) \<le> a * b \<Longrightarrow> a * b < 2 ^ 63 \<Longrightarrow> int64_mul a b = a * b"
  by (simp add: int64_mul_def wrap64_def)

lemma unit_suffixed_integer_column:
  assumes col: "i = 5 \<or> i = 6" and cell: "index row i = Return cell"
    and parts: "Split cell (CHR '' '') = [p0, unit]"
  shows "unit \<noteq> ''Hz'' \<and> unit \<noteq> ''kHz'' \<longrightarrow>
      downstream_column w row channelLabel (i, metric) st = Return st
      \<and> upstream_column w row channelLabel (i, metric) st = Return st"
    and "unit = ''Hz'' \<and> ParseInt p0 = (n, None) \<and> length (variableLabels metric) = 1 \<longrightarrow>
      downstream_column w row channelLabel (i, metric) st
        = Return (send (ConstMetric metric CounterValue (Float64_of_int n) [channelLabel]) st)
      \<and> upstream_column w row channelLabel (i, metric) st
        = Return (send (ConstMetric metric CounterValue (Float64_of_int n) [channelLabel]) st)"
    and "unit = ''kHz'' \<and> ParseInt p0 = (n, None) \<and> length (variableLabels metric) = 1 \<longrightarrow>
      downstream_column w row channelLabel (i, metric) st
        = Return (send (ConstMetric metric CounterValue (Float64_of_int (int64_mul n 1000))
                          [channelLabel]) st)
      \<and> upstream_column w row channelLabel (i, metric) st
        = Return (send (ConstMetric metric CounterValue (Float64_of_int (int64_mul n 1000))
                          [channelLabel]) st)"
  using parts
  by (auto simp: downstream_column_def upstream_column_def unit_int_column [OF col cell]
      unit_int_case_def finish_column_Continue finish_column_Computed)

section \<open>Claims about the extractor\<close>

text \<open>
  C9. The loops of \<^verbatim>\<open>parseTables\<close> and \<^verbatim>\<open>parseTable\<close> that walk the tree by
  pointers terminate: every move they make (to the first child, to the next sibling, to
  the next sibling of the parent) leads to a node with strictly fewer nodes left in
  document order, so no node is visited twice; \<^verbatim>\<open>parseTable\<close> returns a table for
  every table node, and \<^verbatim>\<open>parseTables\<close> returns a list of tables for every document
  node that has a child (as every document of \<^verbatim>\<open>html.Parse\<close> has; on a document
  without children the walk ends at once, in a panic). The three outer loops of
  \<^verbatim>\<open>parseTable\<close> run along a chain of siblings that gets shorter with every step.
  The functions \<open>content_loop\<close>, \<open>cell_loop\<close>, \<open>row_loop\<close>, \<open>body_loop\<close>
  and \<open>parseTables_loop\<close> are defined by recursion on these measures.
\<close>

theorem extraction_terminates:
  "(FirstChild n1 = Some c \<longrightarrow> remaining c < remaining n1)
   \<and> (tables_advance doc n2 = Return (Some m2) \<longrightarrow> remaining m2 < remaining n2)
   \<and> (content_advance cellNode n3 = Return (Some m3) \<longrightarrow> remaining m3 < remaining n3)
   \<and> (NextSibling n4 = Some m4 \<longrightarrow> length (siblings m4) < length (siblings n4))
   \<and> (\<exists>t. parseTable tableNode = Return t)
   \<and> (children d \<noteq> [] \<and> Type d = DocumentNode \<longrightarrow>
        (\<exists>tables. parseTables (Inr d) = Return (Inr tables)))"
proof -
  have "\<exists>tables. parseTables (Inr d) = Return (Inr tables)"
    if "children d \<noteq> []" and "Type d = DocumentNode"
    using that by (intro parseTables_no_panic) (simp_all add: is_table_def)
  then show ?thesis
    using remaining_FirstChild tables_advance_remaining content_advance_remaining
      siblings_NextSibling parseTable_Return by blast
qed

theorem extraction_terminates_witness:
  "remaining example_first < remaining example_root
   \<and> remaining example_second < remaining example_first
   \<and> length (siblings example_second) < length (siblings example_first)
   \<and> (\<exists>t. parseTable (Ptr (simple_table [[''x'']]) [] None) = Return t)
   \<and> (\<exists>tables. parseTables (Inr two_tables_document) = Return (Inr tables))"
proof -
  have down: "FirstChild example_root = Some example_first"
    by code_simp
  have right: "tables_advance example_root example_first = Return (Some example_second)"
    by code_simp
  have right': "content_advance example_root example_first = Return (Some example_second)"
    by code_simp
  have doc: "children two_tables_document \<noteq> [] \<and> Type two_tables_document = DocumentNode"
    by code_simp
  have sib: "NextSibling example_first = Some example_second"
    by code_simp
  from down right right' sib doc
    extraction_terminates [of example_root example_first example_root example_first
      example_second example_root example_first example_second example_first
      example_second "Ptr (simple_table [[''x'']]) [] None" two_tables_document]
  show ?thesis by blast
qed

text \<open>
  C1, as the claim states it: one extracted table for every table element of the
  document. It fails for a table inside a cell of another table: the document has two
  table elements, and \<^verbatim>\<open>parseTables\<close> returns one table.
\<close>

theorem parseTables_nested_table_counterexample:
  "parseTables (Inr nested_table_document) = Return (Inr [[[''oin'']]])
   \<and> map parseTable (table_ptrs nested_table_document [] None)
       = [Return [[''oin'']], Return [[''in'']]]"
  by code_simp

text \<open>
  C1, amended. What \<^verbatim>\<open>parseTables\<close> returns is, entry by entry and in document order,
  the extracted table of the table elements that are not inside another table element,
  from the first one on; a table inside another table is never an entry of its own.
\<close>

theorem parseTables_outer_tables:
  "parseTables (Inr d) = Return (Inr tables) \<Longrightarrow>
   prefix (map Return tables)
     (map parseTable (filter (\<lambda>n. \<not> inside_table n) (table_ptrs d [] None)))"
  using parseTables_prefix [of d tables] by (simp add: outer_tables_document)

theorem parseTables_outer_tables_witness:
  "parseTables (Inr two_tables_document) = Return (Inr [[[''a'', ''b''], [''c'']], [[''x'']]])
   \<and> prefix (map Return [[[''a'', ''b''], [''c'']], [[''x'']]])
       (map parseTable
          (filter (\<lambda>n. \<not> inside_table n) (table_ptrs two_tables_document [] None)))"
proof -
  have run: "parseTables (Inr two_tables_document)
      = Return (Inr [[[''a'', ''b''], [''c'']], [[''x'']]])"
    by code_simp
  from run parseTables_outer_tables [OF run] show ?thesis by simp
qed

text \<open>
  The walk of \<^verbatim>\<open>parseTables\<close> climbs one level only: at a last child whose parent is a
  last child too it leaves the loop, whatever follows higher up. Here the table after
  \<^verbatim>\<open><div><p>x</p></div>\<close> is not reached.
\<close>

lemma parseTables_stops_early:
  "parseTables (Inr late_table_document) = Return (Inr [])
   \<and> map parseTable (table_ptrs late_table_document [] None) = [Return [[''y'']]]"
  by code_simp

text \<open>
  C6. The text of a cell should be the trimmed concatenation of all its descendant text
  nodes. The walk of the cell climbs one level only, as the walk of the document does:
  for the cell \<^verbatim>\<open><td><b><i>a</i></b>c</td>\<close> the extracted text is \<open>a\<close>, and the
  text of the descendants is \<open>ac\<close>.
\<close>

theorem cell_text_misses_text:
  "parseTables (Inr deep_cell_document) = Return (Inr [[[''a'']]])
   \<and> TrimSpace (descendant_text deep_cell) = ''ac''"
  by code_simp

section \<open>Claims about the decoder\<close>

text \<open>
  C4. A row whose number of cells is not the number that its table requires (9 for the
  network table, 13 for the downstream table, 9 for the upstream table) is not decoded:
  the body of the row loop returns the state as it was (nothing sent, nothing counted,
  nothing logged), and the loop goes on with the rows that follow.
\<close>

theorem mismatched_row_is_skipped:
  "(length row \<noteq> 9 \<longrightarrow>
      network_row ord row st = Return st
      \<and> for_each (network_row ord) (row # rows) st = for_each (network_row ord) rows st)
   \<and> (length row \<noteq> 13 \<longrightarrow>
      downstream_row w ord row st = Return st
      \<and> for_each (downstream_row w ord) (row # rows) st
          = for_each (downstream_row w ord) rows st)
   \<and> (length row \<noteq> 9 \<longrightarrow>
      upstream_row w ord row st = Return st
      \<and> for_each (upstream_row w ord) (row # rows) st
          = for_each (upstream_row w ord) rows st)
   \<and> (length row \<noteq> width \<longrightarrow>
      channel_row width m column ord row st = Return st
      \<and> for_each (channel_row width m column ord) (row # rows) st
          = for_each (channel_row width m column ord) rows st)"
  by (simp add: network_row_def downstream_row_def upstream_row_def channel_row_mismatch)

theorem mismatched_row_is_skipped_witness:
  "network_row in_order [''Column'', ''names''] initial_state = Return initial_state
   \<and> downstream_row (example_world []) in_order [''Column'', ''names''] initial_state
       = Return initial_state
   \<and> upstream_row (example_world []) in_order [''Column'', ''names''] initial_state
       = Return initial_state
   \<and> for_each (downstream_row (example_world []) in_order)
        [[''Column'', ''names''], downstream_example_row] initial_state
       = for_each (downstream_row (example_world []) in_order) [downstream_example_row]
           initial_state"
proof -
  have len: "length [''Column'', ''names''] \<noteq> 9" "length [''Column'', ''names''] \<noteq> 13"
    by simp_all
  from len mismatched_row_is_skipped [of "[''Column'', ''names'']" in_order initial_state
      "[downstream_example_row]" "example_world []" 13 downstreamChannelMetrics
      "downstream_column (example_world [])"]
  show ?thesis by blast
qed

text \<open>
  C5. In a row of a channel table that has the required number of cells, when the
  channel index \<^verbatim>\<open>row[1]\<close> is not an integer, nothing is sent for the row, the
  counter of parse failures of the page goes up by one, and the loop goes on with the
  rows that follow.
\<close>

theorem row_key_failure_skips_row:
  assumes "ParseInt (row ! 1) = (v, Some e)"
  shows "(length row = 13 \<longrightarrow>
      (\<exists>st'. downstream_row w ord row st = Return st'
         \<and> ch st' = ch st
         \<and> parseFailures st' ''cmconnectionstatus.html''
             = Suc (parseFailures st ''cmconnectionstatus.html'')
         \<and> for_each (downstream_row w ord) (row # rows) st
             = for_each (downstream_row w ord) rows st'))
   \<and> (length row = 9 \<longrightarrow>
      (\<exists>st'. upstream_row w ord row st = Return st'
         \<and> ch st' = ch st
         \<and> parseFailures st' ''cmconnectionstatus.html''
             = Suc (parseFailures st ''cmconnectionstatus.html'')
         \<and> for_each (upstream_row w ord) (row # rows) st
             = for_each (upstream_row w ord) rows st'))"
proof -
  have "channel_row (length row) m column ord row st
      = Return (record_failure ''cmconnectionstatus.html'' (Logged_error e) st)"
    if "2 \<le> length row" for m column
    using that assms by (intro channel_row_key_failure) (simp_all add: index_def)
  from this [of downstreamChannelMetrics "downstream_column w"]
    this [of upstreamChannelMetrics "upstream_column w"]
  show ?thesis by (auto simp: downstream_row_def upstream_row_def)
qed

theorem row_key_failure_skips_row_witness:
  "\<exists>st'. downstream_row (example_world []) in_order (downstream_example_row[1 := ''one''])
            initial_state = Return st'
     \<and> ch st' = []
     \<and> parseFailures st' ''cmconnectionstatus.html'' = 1"
proof -
  have key: "ParseInt ((downstream_example_row[1 := ''one'']) ! 1) = (0, Some (ErrSyntax ''one''))"
    by code_simp
  have len: "length (downstream_example_row[1 := ''one'']) = 13"
    by (simp add: downstream_example_row_def)
  from len row_key_failure_skips_row [OF key, of "example_world []" in_order initial_state "[]"]
  show ?thesis by (auto simp: initial_state_def)
qed

text \<open>
  C7. When a page has fewer tables than expected, or an expected table has fewer than
  two rows, the page counts as one parse failure: the counter of the page goes up by
  one, that of the other page stays, nothing is sent, and no row is decoded (no
  \<^verbatim>\<open>range\<close> over a metrics map is run).
\<close>

theorem short_page_is_one_failure:
  assumes "parseTables (html_Parse w body) = Return (Inr tables)"
  shows "(fetch w ''statsifc.html'' = Inr body
            \<and> (length tables < 1 \<or> length (tables ! 0) < 2) \<longrightarrow>
          (\<exists>st'. statsifc_page w ord st = Return st'
             \<and> ch st' = ch st \<and> ranges st' = ranges st
             \<and> parseFailures st' ''statsifc.html'' = Suc (parseFailures st ''statsifc.html'')
             \<and> parseFailures st' ''cmconnectionstatus.html''
                 = parseFailures st ''cmconnectionstatus.html''))
   \<and> (fetch w ''cmconnectionstatus.html'' = Inr body
            \<and> (length tables < 3 \<or> length (tables ! 1) < 2 \<or> length (tables ! 2) < 2) \<longrightarrow>
          (\<exists>st'. cmconnectionstatus_page w ord st = Return st'
             \<and> ch st' = ch st \<and> ranges st' = ranges st
             \<and> parseFailures st' ''cmconnectionstatus.html''
                 = Suc (parseFailures st ''cmconnectionstatus.html'')
             \<and> parseFailures st' ''statsifc.html'' = parseFailures st ''statsifc.html''))"
  using assms by (auto simp: statsifc_page_def cmconnectionstatus_page_def)

theorem short_page_is_one_failure_witness:
  "\<exists>st'. cmconnectionstatus_page
            (example_world [(''cmconnectionstatus.html'', [simple_table [[''Status'']]])])
            in_order initial_state = Return st'
     \<and> ch st' = [] \<and> ranges st' = 0
     \<and> parseFailures st' ''cmconnectionstatus.html'' = 1
     \<and> parseFailures st' ''statsifc.html'' = 0"
proof -
  let ?w = "example_world [(''cmconnectionstatus.html'', [simple_table [[''Status'']]])]"
  have tables: "parseTables (html_Parse ?w [simple_table [[''Status'']]])
      = Return (Inr [[[''Status'']]])"
    by code_simp
  have page: "fetch ?w ''cmconnectionstatus.html'' = Inr [simple_table [[''Status'']]]"
    by code_simp
  from page short_page_is_one_failure [OF tables, of in_order initial_state]
  show ?thesis by (auto simp: initial_state_def)
qed

text \<open>
  C2, as the claim states it: a cell with an unrecognized unit counts as one parse
  failure. It does not: for the downstream row whose centre frequency reads
  \<open>5 MHz\<close> the row loop sends the ten other metrics, and the counter of parse
  failures stays at 0 (nothing is logged either).
\<close>

theorem unrecognized_unit_not_counted:
  "(case downstream_row (example_world []) in_order
           (downstream_example_row[5 := ''5 MHz'']) initial_state of
      Panic \<Rightarrow> False
    | Return st \<Rightarrow>
        parseFailures st ''cmconnectionstatus.html'' = 0 \<and> errorLog st = []
        \<and> length (ch st) = 10)"
  by code_simp

text \<open>
  C2, amended. In the columns 5 and 6 of both channel tables a cell of two parts, an
  integer and a unit, is decoded to the integer for the unit \<open>Hz\<close> and to the
  integer times 1000 (in \<^verbatim>\<open>int64\<close>) for the unit \<open>kHz\<close>, and the metric is sent with
  that value; with any other unit the column is skipped without a trace: no metric is
  sent, the counter of parse failures is not incremented, nothing is logged.
\<close>

theorem unit_suffixed_integer:
  assumes "i = 5 \<or> i = 6" and "index row i = Return cell"
    and "Split cell (CHR '' '') = [p0, unit]"
  shows "(unit \<noteq> ''Hz'' \<and> unit \<noteq> ''kHz'' \<longrightarrow>
      downstream_column w row channelLabel (i, metric) st = Return st
      \<and> upstream_column w row channelLabel (i, metric) st = Return st)
   \<and> (unit = ''Hz'' \<and> ParseInt p0 = (n, None) \<and> length (variableLabels metric) = 1 \<longrightarrow>
      downstream_column w row channelLabel (i, metric) st
        = Return (send (ConstMetric metric CounterValue (Float64_of_int n) [channelLabel]) st)
      \<and> upstream_column w row channelLabel (i, metric) st
        = Return (send (ConstMetric metric CounterValue (Float64_of_int n) [channelLabel]) st))
   \<and> (unit = ''kHz'' \<and> ParseInt p0 = (n, None) \<and> length (variableLabels metric) = 1 \<longrightarrow>
      downstream_column w row channelLabel (i, metric) st
        = Return (send (ConstMetric metric CounterValue (Float64_of_int (int64_mul n 1000))
                          [channelLabel]) st)
      \<and> upstream_column w row channelLabel (i, metric) st
        = Return (send (ConstMetric metric CounterValue (Float64_of_int (int64_mul n 1000))
                          [channelLabel]) st))
   \<and> (- (2 ^ 63) \<le> n * 1000 \<and> n * 1000 < 2 ^ 63 \<longrightarrow> int64_mul n 1000 = n * 1000)"
  using unit_suffixed_integer_column [OF assms] int64_mul_exact [of n 1000] by blast

theorem unit_suffixed_integer_witness:
  "downstream_column (example_world []) (downstream_example_row[6 := ''1000 kHz'']) ''01''
       (6, width_hz) initial_state
     = Return (send (ConstMetric width_hz CounterValue (Float64_of_int 1000000) [''01''])
                initial_state)
   \<and> downstream_column (example_world []) (downstream_example_row[6 := ''50 Hz'']) ''01''
       (6, width_hz) initial_state
     = Return (send (ConstMetric width_hz CounterValue (Float64_of_int 50) [''01''])
                initial_state)
   \<and> downstream_column (example_world []) (downstream_example_row[6 := ''5 MHz'']) ''01''
       (6, width_hz) initial_state
     = Return initial_state"
proof -
  have labels: "length (variableLabels width_hz) = 1"
    by code_simp
  have k: "index (downstream_example_row[6 := ''1000 kHz'']) 6 = Return ''1000 kHz''"
    "Split ''1000 kHz'' (CHR '' '') = [''1000'', ''kHz'']"
    "ParseInt ''1000'' = (1000, None)"
    by code_simp+
  have h: "index (downstream_example_row[6 := ''50 Hz'']) 6 = Return ''50 Hz''"
    "Split ''50 Hz'' (CHR '' '') = [''50'', ''Hz'']"
    "ParseInt ''50'' = (50, None)"
    by code_simp+
  have m: "index (downstream_example_row[6 := ''5 MHz'']) 6 = Return ''5 MHz''"
    "Split ''5 MHz'' (CHR '' '') = [''5'', ''MHz'']"
    by code_simp+
  have six: "(6::int) = 5 \<or> (6::int) = 6" by simp
  from unit_suffixed_integer [OF six k(1) k(2), where n = 1000 and metric = width_hz
      and w = "example_world []" and channelLabel = "''01''" and st = initial_state] k(3) labels
  have a: "downstream_column (example_world []) (downstream_example_row[6 := ''1000 kHz''])
      ''01'' (6, width_hz) initial_state
     = Return (send (ConstMetric width_hz CounterValue (Float64_of_int 1000000) [''01''])
                initial_state)"
    by simp
  from unit_suffixed_integer [OF six h(1) h(2), where n = 50 and metric = width_hz
      and w = "example_world []" and channelLabel = "''01''" and st = initial_state] h(3) labels
  have b: "downstream_column (example_world []) (downstream_example_row[6 := ''50 Hz''])
      ''01'' (6, width_hz) initial_state
     = Return (send (ConstMetric width_hz CounterValue (Float64_of_int 50) [''01''])
                initial_state)"
    by simp
  from unit_suffixed_integer [OF six m(1) m(2), where n = 0 and metric = width_hz
      and w = "example_world []" and channelLabel = "''01''" and st = initial_state]
  have c: "downstream_column (example_world []) (downstream_example_row[6 := ''5 MHz''])
      ''01'' (6, width_hz) initial_state = Return initial_state"
    by simp
  from a b c show ?thesis by simp
qed

text \<open>
  C8, as the claim states it: the channel label has two digits. For the channel index
  \<open>100\<close> every metric of the row carries the label \<open>100\<close>.
\<close>

theorem channel_label_three_digits:
  "(case downstream_row (example_world []) in_order
           (downstream_example_row[1 := ''100'']) initial_state of
      Panic \<Rightarrow> False
    | Return st \<Rightarrow> map first_label (ch st) = replicate 11 ''100'')"
  by code_simp

text \<open>
  C8, amended. Every metric sent for a decoded row of a channel table carries as its
  first label value the channel index in the format \<^verbatim>\<open>%02d\<close>: padded with a zero
  to two digits for an index from 0 to 99 (1 gives \<open>01\<close>), the digits as they are
  (three or more) from 100 on, and a minus sign and the digits for a negative index.
\<close>

theorem channel_label_padded:
  assumes "ParseInt (row ! 1) = (channel, None)"
  shows "(length row = 13 \<longrightarrow>
      (\<exists>st' ms. downstream_row w ord row st = Return st' \<and> ch st' = ch st @ ms
         \<and> list_all (labelled downstreamChannelMetrics (Sprintf_02d channel)) ms))
   \<and> (length row = 9 \<longrightarrow>
      (\<exists>st' ms. upstream_row w ord row st = Return st' \<and> ch st' = ch st @ ms
         \<and> list_all (labelled upstreamChannelMetrics (Sprintf_02d channel)) ms))
   \<and> (0 \<le> channel \<and> channel < 100 \<longrightarrow>
      Sprintf_02d channel = [char_of (48 + channel div 10), char_of (48 + channel mod 10)])
   \<and> (100 \<le> channel \<longrightarrow> Sprintf_02d channel = decimal channel \<and> 2 < length (decimal channel))
   \<and> (channel < 0 \<longrightarrow> Sprintf_02d channel = CHR ''-'' # decimal (- channel))"
proof -
  have down: "\<exists>st' ms. downstream_row w ord row st = Return st' \<and> ch st' = ch st @ ms
         \<and> list_all (labelled downstreamChannelMetrics (Sprintf_02d channel)) ms"
    if len: "length row = 13"
  proof -
    obtain st' where run: "downstream_row w ord row st = Return st'"
      using downstream_row_no_panic [of w ord row st]
      by (cases "downstream_row w ord row st") auto
    from len have idx: "index row 1 = Return (row ! 1)" by (simp add: index_def)
    have "extends (labelled downstreamChannelMetrics (Sprintf_02d channel)) st st'"
    proof (rule channel_row_labelled [where eff = "downstream_effect w row"])
      show "is_effect_of (downstream_column w row l) ''cmconnectionstatus.html''
          (downstream_effect w row l)" for l
        by (rule downstream_column_effect)
      show "\<exists>v ls. m = ConstMetric d CounterValue v (l # ls)"
        if "m \<in> set (sent_by (downstream_effect w row l (i, d)))" for l i d m
        using that by (rule sent_by_downstream_effect)
      show "channel_row 13 downstreamChannelMetrics (downstream_column w) ord row st
          = Return st'"
        using run by (simp add: downstream_row_def)
      show "length row = 13" by (rule len)
      show "index row 1 = Return (row ! 1)" by (rule idx)
      show "ParseInt (row ! 1) = (channel, None)" by (rule assms)
    qed
    with run show ?thesis by (auto simp: extends_def)
  qed
  have up: "\<exists>st' ms. upstream_row w ord row st = Return st' \<and> ch st' = ch st @ ms
         \<and> list_all (labelled upstreamChannelMetrics (Sprintf_02d channel)) ms"
    if len: "length row = 9"
  proof -
    obtain st' where run: "upstream_row w ord row st = Return st'"
      using upstream_row_no_panic [of w ord row st]
      by (cases "upstream_row w ord row st") auto
    from len have idx: "index row 1 = Return (row ! 1)" by (simp add: index_def)
    have "extends (labelled upstreamChannelMetrics (Sprintf_02d channel)) st st'"
    proof (rule channel_row_labelled [where eff = "upstream_effect w row"])
      show "is_effect_of (upstream_column w row l) ''cmconnectionstatus.html''
          (upstream_effect w row l)" for l
        by (rule upstream_column_effect)
      show "\<exists>v ls. m = ConstMetric d CounterValue v (l # ls)"
        if "m \<in> set (sent_by (upstream_effect w row l (i, d)))" for l i d m
        using that by (rule sent_by_upstream_effect)
      show "channel_row 9 upstreamChannelMetrics (upstream_column w) ord row st
          = Return st'"
        using run by (simp add: upstream_row_def)
      show "length row = 9" by (rule len)
      show "index row 1 = Return (row ! 1)" by (rule idx)
      show "ParseInt (row ! 1) = (channel, None)" by (rule assms)
    qed
    with run show ?thesis by (auto simp: extends_def)
  qed
  have two: "0 \<le> channel \<and> channel < 100 \<longrightarrow>
      Sprintf_02d channel = [char_of (48 + channel div 10), char_of (48 + channel mod 10)]"
    by (simp add: Sprintf_02d_two_digits)
  have more: "100 \<le> channel \<longrightarrow>
      Sprintf_02d channel = decimal channel \<and> 2 < length (decimal channel)"
    by (simp add: Sprintf_02d_def decimal_long)
  have neg: "channel < 0 \<longrightarrow> Sprintf_02d channel = CHR ''-'' # decimal (- channel)"
    by (simp add: Sprintf_02d_def)
  from down up two more neg show ?thesis by blast
qed

theorem channel_label_padded_witness:
  "(\<exists>st' ms. downstream_row (example_world []) in_order downstream_example_row initial_state
        = Return st'
      \<and> ch st' = ms \<and> list_all (labelled downstreamChannelMetrics ''01'') ms)
   \<and> Sprintf_02d 1 = ''01''"
proof -
  have key: "ParseInt (downstream_example_row ! 1) = (1, None)"
    by code_simp
  have len: "length downstream_example_row = 13"
    by (simp add: downstream_example_row_def)
  have label: "Sprintf_02d 1 = ''01''"
    by code_simp
  from len channel_label_padded [OF key, where w = "example_world []" and ord = in_order
      and st = initial_state]
  have "\<exists>st' ms. downstream_row (example_world []) in_order downstream_example_row
        initial_state = Return st'
      \<and> ch st' = ch initial_state @ ms
      \<and> list_all (labelled downstreamChannelMetrics (Sprintf_02d 1)) ms"
    by blast
  then have "\<exists>st' ms. downstream_row (example_world []) in_order downstream_example_row
        initial_state = Return st'
      \<and> ch st' = ms \<and> list_all (labelled downstreamChannelMetrics ''01'') ms"
    unfolding label by (simp add: initial_state_def)
  with label show ?thesis by blast
qed

text \<open>
  C3. A poll that returns sends the metric \<^verbatim>\<open>tc4400_up\<close> exactly once, with the
  value 1; a poll returns whenever every parsed document has a child. When the fetch of
  one of the two pages fails, the poll is the processing of the other page followed by
  \<^verbatim>\<open>tc4400_up\<close> = 1, and no metric of the failing page is sent.
\<close>

theorem up_metric_sent_once:
  "(Collect w ord st = Return st' \<longrightarrow>
      (\<exists>ms. ch st' = ch st @ ms
         \<and> filter is_up ms = [ConstMetric targetUpMetric GaugeValue (Float64_of_int 1) []]))
   \<and> (documents_have_children w \<longrightarrow> (\<exists>st'. Collect w ord st = Return st'))
   \<and> (fetch w ''statsifc.html'' = Inl err \<longrightarrow>
        scrape w ord st =
          (case cmconnectionstatus_page w ord (st\<lparr>totalScrapes := Suc (totalScrapes st)\<rparr>) of
             Panic \<Rightarrow> Panic
           | Return st2 \<Rightarrow> Return (Float64_of_int 1, st2))
        \<and> (Collect w ord st = Return st' \<longrightarrow>
             (\<exists>ms. ch st' = ch st @ ms \<and> list_all (\<lambda>m. \<not> from_map networkMetrics m) ms)))
   \<and> (fetch w ''cmconnectionstatus.html'' = Inl err \<longrightarrow>
        scrape w ord st =
          (case statsifc_page w ord (st\<lparr>totalScrapes := Suc (totalScrapes st)\<rparr>) of
             Panic \<Rightarrow> Panic
           | Return st1 \<Rightarrow> Return (Float64_of_int 1, st1))
        \<and> (Collect w ord st = Return st' \<longrightarrow>
             (\<exists>ms. ch st' = ch st @ ms \<and> list_all (\<lambda>m. \<not> channel_metric m) ms)))"
proof -
  have once: "Collect w ord st = Return st' \<longrightarrow>
      (\<exists>ms. ch st' = ch st @ ms
         \<and> filter is_up ms = [ConstMetric targetUpMetric GaugeValue (Float64_of_int 1) []])"
    using Collect_up_once [of w ord st st'] by blast
  have returns: "documents_have_children w \<longrightarrow> (\<exists>st'. Collect w ord st = Return st')"
    using Collect_no_panic [of w ord st] by blast
  have first: "fetch w ''statsifc.html'' = Inl err \<longrightarrow>
        scrape w ord st =
          (case cmconnectionstatus_page w ord (st\<lparr>totalScrapes := Suc (totalScrapes st)\<rparr>) of
             Panic \<Rightarrow> Panic
           | Return st2 \<Rightarrow> Return (Float64_of_int 1, st2))
        \<and> (Collect w ord st = Return st' \<longrightarrow>
             (\<exists>ms. ch st' = ch st @ ms \<and> list_all (\<lambda>m. \<not> from_map networkMetrics m) ms))"
  proof (intro impI conjI)
    assume failing: "fetch w ''statsifc.html'' = Inl err"
    then show "scrape w ord st =
          (case cmconnectionstatus_page w ord (st\<lparr>totalScrapes := Suc (totalScrapes st)\<rparr>) of
             Panic \<Rightarrow> Panic
           | Return st2 \<Rightarrow> Return (Float64_of_int 1, st2))"
      by (rule Collect_without_statsifc(1))
    assume "Collect w ord st = Return st'"
    with failing show "\<exists>ms. ch st' = ch st @ ms
        \<and> list_all (\<lambda>m. \<not> from_map networkMetrics m) ms"
      by (rule Collect_without_statsifc(2))
  qed
  have second: "fetch w ''cmconnectionstatus.html'' = Inl err \<longrightarrow>
        scrape w ord st =
          (case statsifc_page w ord (st\<lparr>totalScrapes := Suc (totalScrapes st)\<rparr>) of
             Panic \<Rightarrow> Panic
           | Return st1 \<Rightarrow> Return (Float64_of_int 1, st1))
        \<and> (Collect w ord st = Return st' \<longrightarrow>
             (\<exists>ms. ch st' = ch st @ ms \<and> list_all (\<lambda>m. \<not> channel_metric m) ms))"
  proof (intro impI conjI)
    assume failing: "fetch w ''cmconnectionstatus.html'' = Inl err"
    then show "scrape w ord st =
          (case statsifc_page w ord (st\<lparr>totalScrapes := Suc (totalScrapes st)\<rparr>) of
             Panic \<Rightarrow> Panic
           | Return st1 \<Rightarrow> Return (Float64_of_int 1, st1))"
      by (rule Collect_without_cmconnectionstatus(1))
    assume "Collect w ord st = Return st'"
    with failing show "\<exists>ms. ch st' = ch st @ ms \<and> list_all (\<lambda>m. \<not> channel_metric m) ms"
      by (rule Collect_without_cmconnectionstatus(2))
  qed
  from once returns first second show ?thesis by blast
qed

theorem up_metric_sent_once_witness:
  "\<exists>st'. Collect (example_world [(''cmconnectionstatus.html'', cmconnectionstatus_example)])
            in_order initial_state = Return st'
     \<and> filter is_up (ch st') = [ConstMetric targetUpMetric GaugeValue (Float64_of_int 1) []]
     \<and> list_all (\<lambda>m. \<not> from_map networkMetrics m) (ch st')
     \<and> length (ch st') = 23"
proof -
  let ?w = "example_world [(''cmconnectionstatus.html'', cmconnectionstatus_example)]"
  have docs: "documents_have_children ?w"
    by (simp add: documents_have_children_def example_world_def document_def)
  have failing: "fetch ?w ''statsifc.html'' = Inl (ExternalError ''Scraping failed'')"
    by code_simp
  have count: "(case Collect ?w in_order initial_state of
      Panic \<Rightarrow> False | Return st' \<Rightarrow> length (ch st') = 23)"
    by code_simp
  from docs up_metric_sent_once [of ?w in_order initial_state]
  obtain st' where run: "Collect ?w in_order initial_state = Return st'" by blast
  from run failing
    up_metric_sent_once [of ?w in_order initial_state st' "ExternalError ''Scraping failed''"]
  have "filter is_up (ch st') = [ConstMetric targetUpMetric GaugeValue (Float64_of_int 1) []]
      \<and> list_all (\<lambda>m. \<not> from_map networkMetrics m) (ch st')"
    by (auto simp: initial_state_def)
  with run count show ?thesis by simp
qed

lemma order_differs:
  "(case scrape (example_world [(''statsifc.html'', statsifc_example)]) in_order initial_state of
      Panic \<Rightarrow> False
    | Return (up1, st1) \<Rightarrow>
       (case scrape (example_world [(''statsifc.html'', statsifc_example)]) second_first
               initial_state of
          Panic \<Rightarrow> False
        | Return (up2, st2) \<Rightarrow> ch st1 \<noteq> ch st2))"
  by code_simp

text \<open>
  C10. For the same pages, two runs of \<^verbatim>\<open>scrape\<close> that differ in the orders in which
  their \<^verbatim>\<open>range\<close> statements visit the metrics maps both panic or both return, with
  the same metrics sent (as a multiset), the same log lines (as a multiset) and the
  same counters; the order of the metrics of a row is not fixed: for the example page
  two such runs send them in different orders.
\<close>

theorem scrape_order_independent:
  "(case scrape w ord1 st of
      Panic \<Rightarrow> scrape w ord2 st = Panic
    | Return (up1, st1) \<Rightarrow>
       (case scrape w ord2 st of
          Panic \<Rightarrow> False
        | Return (up2, st2) \<Rightarrow>
            up1 = up2 \<and> mset (ch st1) = mset (ch st2)
            \<and> mset (errorLog st1) = mset (errorLog st2)
            \<and> parseFailures st1 = parseFailures st2
            \<and> totalScrapes st1 = totalScrapes st2))
   \<and> (case scrape (example_world [(''statsifc.html'', statsifc_example)]) in_order
              initial_state of
        Panic \<Rightarrow> False
      | Return (up1, st1) \<Rightarrow>
         (case scrape (example_world [(''statsifc.html'', statsifc_example)]) second_first
                 initial_state of
            Panic \<Rightarrow> False
          | Return (up2, st2) \<Rightarrow> ch st1 \<noteq> ch st2))"
  using scrape_agree [of w ord1 st ord2] order_differs
  by (auto simp: agree_def split: exec.splits)

theorem scrape_order_independent_witness:
  "(case scrape (example_world [(''statsifc.html'', statsifc_example),
                                  (''cmconnectionstatus.html'', cmconnectionstatus_example)])
           in_order initial_state of
      Panic \<Rightarrow> False
    | Return (up1, st1) \<Rightarrow>
       (case scrape (example_world [(''statsifc.html'', statsifc_example),
                                      (''cmconnectionstatus.html'', cmconnectionstatus_example)])
               second_first initial_state of
          Panic \<Rightarrow> False
        | Return (up2, st2) \<Rightarrow>
            mset (ch st1) = mset (ch st2) \<and> ch st1 \<noteq> ch st2 \<and> length (ch st1) = 26))"
proof -
  let ?w = "example_world [(''statsifc.html'', statsifc_example),
                            (''cmconnectionstatus.html'', cmconnectionstatus_example)]"
  have differ: "(case scrape ?w in_order initial_state of
      Panic \<Rightarrow> False
    | Return (up1, st1) \<Rightarrow>
       (case scrape ?w second_first initial_state of
          Panic \<Rightarrow> False
        | Return (up2, st2) \<Rightarrow> ch st1 \<noteq> ch st2 \<and> length (ch st1) = 26))"
    by code_simp
  from differ scrape_order_independent [of ?w in_order initial_state second_first]
  show ?thesis by (auto split: exec.splits)
qed

end
